theory Spec2Isabelle
  imports Complex_Main "HOL-Library.Log_Nat"
begin

section \<open>Data model of the animation storyboard (utils/animationStoryboard)\<close>

text \<open>
  The TypeScript interfaces \<open>AnimationStep\<close> and \<open>PDFSection\<close> become records.
  Field names of Isabelle records are global constants, so the anonymous object types
  \<open>{x, y}\<close>, \<open>{x, y, width, height}\<close> and \<open>{width, height}\<close> get records of their own with
  prefixed field names, and the fields \<open>type\<close> and \<open>text\<close> of \<open>PDFSection\<close> are called
  \<open>sec_type\<close> and \<open>sec_text\<close>.

  Numbers. A JavaScript \<open>number\<close> is an IEEE-754 double. Time stamps are sums of the
  integer constants of the generator, far below \<open>2 ^ 53\<close> for every array length
  JavaScript allows, so they are exact and modelled as \<open>int\<close>. In the storyboard and in
  the regions, coordinates and confidences are modelled as \<open>real\<close>: the expressions of
  the source are kept as they are written, and the theorems on them name positions by
  these expressions. Where the exact value of a computed coordinate matters, in
  \<open>createCurvedPath\<close>, the function is modelled in double arithmetic, with rounding,
  overflow, infinities and NaN.
\<close>

datatype SectionType = Name | Contact | Skills | Experience | Education

datatype AnimationAction = Move | Pause | Glow | Tag_popout | Beam_transfer | Complete

record Point =
  pos_x :: real
  pos_y :: real

record BoundingBox =
  box_x :: real
  box_y :: real
  width :: real
  height :: real

record Dimensions =
  dim_width :: real
  dim_height :: real

record AnimationStep =
  timeline :: int
  bubble_position :: Point
  highlight_area :: "BoundingBox option"
  tag_text :: "string option"
  animation_action :: AnimationAction
  section_type :: "SectionType option"

record PDFSection =
  sec_type :: SectionType
  sec_text :: string
  boundingBox :: BoundingBox
  confidence :: real

section \<open>getTagText\<close>

text \<open>
  The \<open>switch\<close> of the source has a \<open>default\<close> branch returning \<open>Section Detected\<close>; the
  five cases exhaust the type of \<open>PDFSection.type\<close>, so the branch has no input here.
\<close>

fun getTagText :: "SectionType \<Rightarrow> string" where
  "getTagText Name = ''Name Detected''"
| "getTagText Contact = ''Contact Extracted''"
| "getTagText Skills = ''Skills Identified''"
| "getTagText Experience = ''Experience Analyzed''"
| "getTagText Education = ''Education Verified''"

section \<open>Numbers in double arithmetic\<close>

text \<open>
  A JavaScript \<open>number\<close>: a finite double, given by its real value, one of the two
  infinities, or NaN. The two zeros of IEEE 754 are one value here: \<open>===\<close> does not tell
  them apart, and a zero's sign shows only in a quotient by zero, which
  \<open>createCurvedPath\<close> forms only as \<open>0 / 0\<close>.
\<close>

datatype number = Fin real | PInf | NInf | NaN

text \<open>
  Rounding to the nearest double, ties to the even significand. A double other than
  zero is \<open>m * 2 ^ q\<close> with an integer \<open>m\<close> of at most 53 bits and \<open>q \<ge> - 1074\<close>; for a
  real \<open>r\<close> with \<open>2 ^ k \<le> \<bar>r\<bar> < 2 ^ (k + 1)\<close> the exponent of the last place is
  \<open>q = max (k - 52) (- 1074)\<close> (the second bound gives the subnormal numbers), and
  \<open>r / 2 ^ q\<close> is rounded to the nearest integer. A result of magnitude \<open>2 ^ 1024\<close> or
  more is an overflow and becomes an infinity. \<open>floor_log2\<close> computes \<open>k\<close> from the bit
  length of an integer, so that all of this can be evaluated.
\<close>

definition round_half_even :: "real \<Rightarrow> int" where
  "round_half_even v =
     (let f = \<lfloor>v\<rfloor>; d = v - of_int f
      in if d < 1 / 2 then f else if 1 / 2 < d then f + 1 else if even f then f else f + 1)"

definition floor_log2 :: "real \<Rightarrow> int" where
  "floor_log2 a = (if 1 \<le> a then bitlen \<lfloor>a\<rfloor> - 1 else - bitlen (\<lceil>1 / a\<rceil> - 1))"

definition ulp_exponent :: "real \<Rightarrow> int" where
  "ulp_exponent r = max (floor_log2 \<bar>r\<bar> - 52) (- 1074)"

definition rnd :: "real \<Rightarrow> real" where
  "rnd r = (if r = 0 then 0
            else of_int (round_half_even (r / 2 powi ulp_exponent r)) * 2 powi ulp_exponent r)"

definition round_to_double :: "real \<Rightarrow> number" where
  "round_to_double r =
     (let v = rnd r
      in if 2 ^ 1024 \<le> v then PInf else if v \<le> - (2 ^ 1024) then NInf else Fin v)"

text \<open>The finite numbers, and those of them that are doubles.\<close>

fun is_finite :: "number \<Rightarrow> bool" where
  "is_finite (Fin r) = True"
| "is_finite v = False"

fun is_double :: "number \<Rightarrow> bool" where
  "is_double (Fin r) = (round_to_double r = Fin r)"
| "is_double v = False"

text \<open>
  The arithmetic of \<open>+\<close>, \<open>-\<close>, \<open>*\<close> and \<open>/\<close> on numbers: the exact result of finite
  operands is rounded; NaN propagates; \<open>Infinity - Infinity\<close>, \<open>Infinity * 0\<close>, \<open>0 / 0\<close>
  and \<open>Infinity / Infinity\<close> are NaN. A zero divisor counts as \<open>+0\<close>.
\<close>

fun fneg :: "number \<Rightarrow> number" where
  "fneg (Fin a) = Fin (- a)"
| "fneg PInf = NInf"
| "fneg NInf = PInf"
| "fneg NaN = NaN"

fun fadd :: "number \<Rightarrow> number \<Rightarrow> number" where
  "fadd (Fin a) (Fin b) = round_to_double (a + b)"
| "fadd NaN w = NaN"
| "fadd v NaN = NaN"
| "fadd PInf NInf = NaN"
| "fadd NInf PInf = NaN"
| "fadd PInf w = PInf"
| "fadd NInf w = NInf"
| "fadd (Fin a) w = w"

definition fsub :: "number \<Rightarrow> number \<Rightarrow> number" where
  "fsub v w = fadd v (fneg w)"

fun sign_of :: "number \<Rightarrow> int" where
  "sign_of (Fin a) = (if a < 0 then - 1 else if a = 0 then 0 else 1)"
| "sign_of PInf = 1"
| "sign_of NInf = - 1"
| "sign_of NaN = 0"

fun fmul :: "number \<Rightarrow> number \<Rightarrow> number" where
  "fmul (Fin a) (Fin b) = round_to_double (a * b)"
| "fmul NaN w = NaN"
| "fmul v NaN = NaN"
| "fmul v w =
     (if sign_of v * sign_of w = 0 then NaN
      else if sign_of v * sign_of w = 1 then PInf else NInf)"

fun fdiv :: "number \<Rightarrow> number \<Rightarrow> number" where
  "fdiv (Fin a) (Fin b) =
     (if b \<noteq> 0 then round_to_double (a / b)
      else if a = 0 then NaN else if 0 < a then PInf else NInf)"
| "fdiv NaN w = NaN"
| "fdiv v NaN = NaN"
| "fdiv (Fin a) w = Fin 0"
| "fdiv v (Fin b) = (if (sign_of v = 1) = (0 \<le> b) then PInf else NInf)"
| "fdiv v w = NaN"

section \<open>createCurvedPath\<close>

text \<open>
  \<open>Math.PI\<close> is the double nearest to \<open>pi\<close>, \<open>0x1.921fb54442d18p+1\<close>. \<open>Math.sin\<close> is
  specified only at NaN, the zeros and the infinities; at every other argument its
  result is left to the implementation, which is the parameter \<open>impl\<close> here.
  \<open>sin_engine\<close> is one such implementation: at \<open>Math.PI\<close> it returns
  \<open>0x1.1a62633145c07p-53\<close>, that is \<open>1.2246467991473532e-16\<close>, the value that V8 (Node.js,
  Chrome) returns there, and elsewhere the double nearest to the real sine.
\<close>

definition Math_PI :: number where
  "Math_PI = Fin (884279719003555 / 281474976710656)"

definition Math_sin :: "(real \<Rightarrow> number) \<Rightarrow> number \<Rightarrow> number" where
  "Math_sin impl v = (case v of Fin r \<Rightarrow> if r = 0 then Fin 0 else impl r | _ \<Rightarrow> NaN)"

definition sin_engine :: "real \<Rightarrow> number" where
  "sin_engine r =
     (if r = 884279719003555 / 281474976710656 then Fin (4967757600021511 / 2 ^ 105)
      else round_to_double (sin r))"

text \<open>
  The function itself, statement by statement: \<open>t = i / steps\<close>,
  \<open>x = start.x + (end.x - start.x) * t\<close>, likewise \<open>y\<close>,
  \<open>curveOffset = Math.sin(t * Math.PI) * 20\<close>, and the pushed point
  \<open>{x: x + curveOffset, y: y + curveOffset}\<close>. The loop
  \<open>for (let i = 0; i <= steps; i++)\<close> pushes one point per \<open>i\<close>, so the path is the
  image of \<open>[0..<Suc steps]\<close>. The counter \<open>i\<close> and \<open>steps\<close> are integers below \<open>2 ^ 53\<close>
  for every array JavaScript can hold, hence doubles. The only caller passes
  \<open>steps = 3\<close>.
\<close>

record DPoint =
  dbl_x :: number
  dbl_y :: number

definition param_t :: "nat \<Rightarrow> nat \<Rightarrow> number" where
  "param_t steps i = fdiv (Fin (real i)) (Fin (real steps))"

definition interpolate :: "number \<Rightarrow> number \<Rightarrow> number \<Rightarrow> number" where
  "interpolate a b t = fadd a (fmul (fsub b a) t)"

definition curveOffset :: "(real \<Rightarrow> number) \<Rightarrow> number \<Rightarrow> number" where
  "curveOffset impl t = fmul (Math_sin impl (fmul t Math_PI)) (Fin 20)"

definition path_point :: "(real \<Rightarrow> number) \<Rightarrow> DPoint \<Rightarrow> DPoint \<Rightarrow> nat \<Rightarrow> nat \<Rightarrow> DPoint" where
  "path_point impl start endp steps i =
     (let t = param_t steps i;
          px = interpolate (dbl_x start) (dbl_x endp) t;
          py = interpolate (dbl_y start) (dbl_y endp) t
      in \<lparr>dbl_x = fadd px (curveOffset impl t), dbl_y = fadd py (curveOffset impl t)\<rparr>)"

definition createCurvedPath ::
    "(real \<Rightarrow> number) \<Rightarrow> DPoint \<Rightarrow> DPoint \<Rightarrow> nat \<Rightarrow> DPoint list" where
  "createCurvedPath impl start endp steps =
     map (path_point impl start endp steps) [0..<Suc steps]"

section \<open>createCurvedPath over the reals\<close>

text \<open>
  The storyboard carries the points of a transition path as positions. Its theorems use
  the number of these points and name the points themselves, without computing them.
  For that use the path is kept a second time with real coordinates, \<open>Math.sin\<close> and
  \<open>Math.PI\<close> being the real \<open>sin\<close> and \<open>pi\<close>: the same loop, the same expressions, no
  rounding. What the program computes for the points is \<open>createCurvedPath\<close> above.
\<close>

definition createCurvedPath_real :: "Point \<Rightarrow> Point \<Rightarrow> nat \<Rightarrow> Point list" where
  "createCurvedPath_real start endp steps =
     map (\<lambda>i.
        let t = real i / real steps;
            px = pos_x start + (pos_x endp - pos_x start) * t;
            py = pos_y start + (pos_y endp - pos_y start) * t;
            curveOffset = sin (t * pi) * 20
        in \<lparr>pos_x = px + curveOffset, pos_y = py + curveOffset\<rparr>)
       [0..<Suc steps]"

section \<open>generateAnimationStoryboard\<close>

definition timePerSection :: int where [simp]: "timePerSection = 30000"
definition moveTime :: int where [simp]: "moveTime = 8000"
definition pauseTime :: int where [simp]: "pauseTime = 12000"
definition glowTime :: int where [simp]: "glowTime = 8000"
definition tagTime :: int where [simp]: "tagTime = 4000"
definition beamTime :: int where [simp]: "beamTime = 4000"

text \<open>The two mutable locals of the function: the array being built and the time cursor.\<close>

record gen_state =
  storyboard :: "AnimationStep list"
  currentTime :: int

definition center :: "BoundingBox \<Rightarrow> Point" where
  "center b = \<lparr>pos_x = box_x b + width b / 2, pos_y = box_y b + height b / 2\<rparr>"

definition push :: "AnimationStep \<Rightarrow> gen_state \<Rightarrow> gen_state" where
  "push e st = st\<lparr>storyboard := storyboard st @ [e]\<rparr>"

definition advance :: "int \<Rightarrow> gen_state \<Rightarrow> gen_state" where
  "advance d st = st\<lparr>currentTime := currentTime st + d\<rparr>"

text \<open>
  The inner \<open>pathSteps.forEach((point, pathIndex) => ...)\<close>: one \<open>move\<close> per point at
  \<open>currentTime + pathIndex * 100\<close>; the cursor itself is not changed by it.
\<close>

definition push_path :: "Point list \<Rightarrow> gen_state \<Rightarrow> gen_state" where
  "push_path pathSteps st =
     foldl (\<lambda>s (pathIndex, point).
        push \<lparr>timeline = currentTime st + int pathIndex * 100, bubble_position = point,
              highlight_area = None, tag_text = None, animation_action = Move,
              section_type = None\<rparr> s)
       st (enumerate 0 pathSteps)"

text \<open>
  The callback of \<open>pdfSections.forEach((section, index) => ...)\<close>. The read of
  \<open>pdfSections[index + 1]\<close> is guarded by \<open>index < pdfSections.length - 1\<close>, as in the
  source, so it is never out of range.
\<close>

definition process_section :: "PDFSection list \<Rightarrow> gen_state \<Rightarrow> nat \<times> PDFSection \<Rightarrow> gen_state" where
  "process_section pdfSections st0 = (\<lambda>(index, section).
     let c = center (boundingBox section);
         st1 = advance moveTime
                 (push \<lparr>timeline = currentTime st0, bubble_position = c,
                        highlight_area = None, tag_text = None, animation_action = Move,
                        section_type = None\<rparr> st0);
         st2 = advance pauseTime
                 (push \<lparr>timeline = currentTime st1, bubble_position = c,
                        highlight_area = Some (boundingBox section),
                        tag_text = Some (getTagText (sec_type section)),
                        animation_action = Pause,
                        section_type = Some (sec_type section)\<rparr> st1);
         st3 = advance glowTime
                 (push \<lparr>timeline = currentTime st2, bubble_position = c,
                        highlight_area = Some (boundingBox section),
                        tag_text = Some (getTagText (sec_type section)),
                        animation_action = Glow,
                        section_type = Some (sec_type section)\<rparr> st2);
         st4 = advance tagTime
                 (push \<lparr>timeline = currentTime st3, bubble_position = c,
                        highlight_area = None,
                        tag_text = Some (getTagText (sec_type section)),
                        animation_action = Tag_popout,
                        section_type = Some (sec_type section)\<rparr> st3);
         st5 = advance beamTime
                 (push \<lparr>timeline = currentTime st4, bubble_position = c,
                        highlight_area = None, tag_text = None,
                        animation_action = Beam_transfer,
                        section_type = Some (sec_type section)\<rparr> st4)
     in if int index < int (length pdfSections) - 1
        then let nextSection = pdfSections ! (index + 1);
                 pathSteps = createCurvedPath_real c (center (boundingBox nextSection)) 3
             in advance 300 (push_path pathSteps st5)
        else st5)"

text \<open>
  The body of the function in three parts: the state after the block
  \<open>if (pdfSections.length > 0) { ... }\<close>, the state after the \<open>forEach\<close>, and the
  returned array, which is the array of that state with the \<open>complete\<close> step pushed at
  the cursor of that state.
\<close>

definition initial_approach :: "PDFSection list \<Rightarrow> gen_state" where
  "initial_approach pdfSections =
     (let st0 = \<lparr>storyboard = [], currentTime = 0\<rparr>
      in if length pdfSections > 0
         then let firstSection = pdfSections ! 0
              in advance moveTime
                   (push \<lparr>timeline = currentTime st0,
                          bubble_position = center (boundingBox firstSection),
                          highlight_area = None, tag_text = None,
                          animation_action = Move, section_type = None\<rparr> st0)
         else st0)"

definition after_sections :: "PDFSection list \<Rightarrow> gen_state" where
  "after_sections pdfSections =
     foldl (process_section pdfSections) (initial_approach pdfSections)
       (enumerate 0 pdfSections)"

definition generateAnimationStoryboard :: "PDFSection list \<Rightarrow> Dimensions \<Rightarrow> AnimationStep list" where
  "generateAnimationStoryboard pdfSections pdfDimensions =
     (let st = after_sections pdfSections
      in storyboard
           (push \<lparr>timeline = currentTime st,
                  bubble_position = \<lparr>pos_x = dim_width pdfDimensions / 2,
                                     pos_y = dim_height pdfDimensions / 2\<rparr>,
                  highlight_area = None, tag_text = None,
                  animation_action = Complete, section_type = None\<rparr> st))"

section \<open>extractPDFSections\<close>

text \<open>
  The parameter has type \<open>any\<close>; the caller passes a \<open>ResumeData\<close> (lib/api.ts), of which
  the function reads \<open>name\<close>, \<open>email\<close>, \<open>phone\<close>, \<open>skills\<close>, \<open>experience[i].role\<close> and
  \<open>education[i].degree\<close>. Every field read is optional here: \<open>None\<close> is \<open>undefined\<close>.
  The items of \<open>experience\<close> and \<open>education\<close> are objects, so reading \<open>role\<close> or
  \<open>degree\<close> of an item does not throw. Strings are lists of characters with codes
  below 256.

  JavaScript truthiness: a string is truthy iff it is not empty; an array is always
  truthy, so \<open>a && a.length > 0\<close> holds iff the array is there and not empty.
\<close>

record ExperienceItem =
  role :: "string option"

record EducationItem =
  degree :: "string option"

record ResumeData =
  name :: "string option"
  email :: "string option"
  phone :: "string option"
  skills :: "string list option"
  experience :: "ExperienceItem list option"
  education :: "EducationItem list option"

definition truthy :: "string option \<Rightarrow> bool" where
  "truthy v = (case v of None \<Rightarrow> False | Some s \<Rightarrow> s \<noteq> [])"

text \<open>The expression \<open>v || ''\<close>.\<close>

definition or_empty :: "string option \<Rightarrow> string" where
  "or_empty v = (case v of None \<Rightarrow> [] | Some s \<Rightarrow> s)"

text \<open>
  \<open>String.prototype.trim\<close> removes white space and line terminators at both ends; with
  codes below 256 these are TAB, LF, VT, FF, CR, space and the no-break space.
\<close>

definition is_space :: "char \<Rightarrow> bool" where
  "is_space c = (c \<in> set [CHR 0x09, CHR 0x0A, CHR 0x0B, CHR 0x0C, CHR 0x0D, CHR 0x20, CHR 0xA0])"

definition trim :: "string \<Rightarrow> string" where
  "trim s = rev (dropWhile is_space (rev (dropWhile is_space s)))"

text \<open>
  \<open>Array.prototype.join\<close>: the elements separated by the separator, an \<open>undefined\<close>
  element contributing the empty string.
\<close>

fun join :: "string \<Rightarrow> string option list \<Rightarrow> string" where
  "join sep [] = []"
| "join sep [v] = or_empty v"
| "join sep (v # w # rest) = or_empty v @ sep @ join sep (w # rest)"

definition extractPDFSections :: "ResumeData \<Rightarrow> PDFSection list" where
  "extractPDFSections resumeData =
     (case name resumeData of
          Some s \<Rightarrow>
            if s \<noteq> []
            then [\<lparr>sec_type = Name, sec_text = s,
                   boundingBox = \<lparr>box_x = 100, box_y = 70, width = 200, height = 30\<rparr>,
                   confidence = 95 / 100\<rparr>]
            else []
        | None \<Rightarrow> [])
     @ (if truthy (email resumeData) \<or> truthy (phone resumeData)
      then [\<lparr>sec_type = Contact,
             sec_text = trim (or_empty (email resumeData) @ '' '' @ or_empty (phone resumeData)),
             boundingBox = \<lparr>box_x = 180, box_y = 110, width = 250, height = 40\<rparr>,
             confidence = 9 / 10\<rparr>]
      else [])
     @ (case skills resumeData of
          Some l \<Rightarrow>
            if length l > 0
            then [\<lparr>sec_type = Skills, sec_text = join '', '' (map Some l),
                   boundingBox = \<lparr>box_x = 130, box_y = 190, width = 300, height = 60\<rparr>,
                   confidence = 85 / 100\<rparr>]
            else []
        | None \<Rightarrow> [])
     @ (case experience resumeData of
          Some l \<Rightarrow>
            if length l > 0
            then [\<lparr>sec_type = Experience, sec_text = join '', '' (map role l),
                   boundingBox = \<lparr>box_x = 160, box_y = 290, width = 350, height = 100\<rparr>,
                   confidence = 8 / 10\<rparr>]
            else []
        | None \<Rightarrow> [])
     @ (case education resumeData of
          Some l \<Rightarrow>
            if length l > 0
            then [\<lparr>sec_type = Education, sec_text = join '', '' (map degree l),
                   boundingBox = \<lparr>box_x = 200, box_y = 440, width = 280, height = 80\<rparr>,
                   confidence = 75 / 100\<rparr>]
            else []
        | None \<Rightarrow> [])"

section \<open>The storyboard as a function of the region list\<close>

text \<open>
  The five steps one region contributes when the cursor is at \<open>t\<close>, the steps of one
  transition path, and the steps and the final cursor of a whole run of regions by
  recursion on the list. They are shown below to be what the loop computes.
\<close>

definition move_at :: "int \<Rightarrow> Point \<Rightarrow> AnimationStep" where
  "move_at t p = \<lparr>timeline = t, bubble_position = p, highlight_area = None,
      tag_text = None, animation_action = Move, section_type = None\<rparr>"

definition complete_at :: "int \<Rightarrow> Dimensions \<Rightarrow> AnimationStep" where
  "complete_at t d = \<lparr>timeline = t,
      bubble_position = \<lparr>pos_x = dim_width d / 2, pos_y = dim_height d / 2\<rparr>,
      highlight_area = None, tag_text = None, animation_action = Complete,
      section_type = None\<rparr>"

definition section_steps :: "int \<Rightarrow> PDFSection \<Rightarrow> AnimationStep list" where
  "section_steps t s =
     [move_at t (center (boundingBox s)),
      \<lparr>timeline = t + 8000, bubble_position = center (boundingBox s),
       highlight_area = Some (boundingBox s), tag_text = Some (getTagText (sec_type s)),
       animation_action = Pause, section_type = Some (sec_type s)\<rparr>,
      \<lparr>timeline = t + 20000, bubble_position = center (boundingBox s),
       highlight_area = Some (boundingBox s), tag_text = Some (getTagText (sec_type s)),
       animation_action = Glow, section_type = Some (sec_type s)\<rparr>,
      \<lparr>timeline = t + 28000, bubble_position = center (boundingBox s),
       highlight_area = None, tag_text = Some (getTagText (sec_type s)),
       animation_action = Tag_popout, section_type = Some (sec_type s)\<rparr>,
      \<lparr>timeline = t + 32000, bubble_position = center (boundingBox s),
       highlight_area = None, tag_text = None,
       animation_action = Beam_transfer, section_type = Some (sec_type s)\<rparr>]"

definition transition_path :: "PDFSection \<Rightarrow> PDFSection \<Rightarrow> Point list" where
  "transition_path s n =
     createCurvedPath_real (center (boundingBox s)) (center (boundingBox n)) 3"

definition path_steps :: "int \<Rightarrow> PDFSection \<Rightarrow> PDFSection \<Rightarrow> AnimationStep list" where
  "path_steps t s n =
     map (\<lambda>(pathIndex, point). move_at (t + int pathIndex * 100) point)
       (enumerate 0 (transition_path s n))"

fun steps_from :: "int \<Rightarrow> PDFSection list \<Rightarrow> AnimationStep list" where
  "steps_from t [] = []"
| "steps_from t [s] = section_steps t s"
| "steps_from t (s # n # rest) =
     section_steps t s @ path_steps (t + 36000) s n @ steps_from (t + 36300) (n # rest)"

fun time_from :: "int \<Rightarrow> PDFSection list \<Rightarrow> int" where
  "time_from t [] = t"
| "time_from t [s] = t + 36000"
| "time_from t (s # n # rest) = time_from (t + 36300) (n # rest)"

definition count_action :: "AnimationAction \<Rightarrow> AnimationStep list \<Rightarrow> nat" where
  "count_action a sb = length (filter (\<lambda>e. animation_action e = a) sb)"

text \<open>
  A field group of the input is present when its source data is neither absent nor
  empty: a non-empty name, a non-empty email or phone, a non-empty list.
\<close>

fun group_present :: "ResumeData \<Rightarrow> SectionType \<Rightarrow> bool" where
  "group_present rd Name = (name rd \<noteq> None \<and> name rd \<noteq> Some [])"
| "group_present rd Contact =
     ((email rd \<noteq> None \<and> email rd \<noteq> Some []) \<or> (phone rd \<noteq> None \<and> phone rd \<noteq> Some []))"
| "group_present rd Skills = (skills rd \<noteq> None \<and> skills rd \<noteq> Some [])"
| "group_present rd Experience = (experience rd \<noteq> None \<and> experience rd \<noteq> Some [])"
| "group_present rd Education = (education rd \<noteq> None \<and> education rd \<noteq> Some [])"

text \<open>The confidence literal of each of the five \<open>push\<close> calls, by the kind it pushes.\<close>

fun kind_confidence :: "SectionType \<Rightarrow> real" where
  "kind_confidence Name = 95 / 100"
| "kind_confidence Contact = 9 / 10"
| "kind_confidence Skills = 85 / 100"
| "kind_confidence Experience = 8 / 10"
| "kind_confidence Education = 75 / 100"

text \<open>
  Inputs for the examples: a resume with a name and an email only, the two regions
  \<open>extractPDFSections\<close> returns for it, and the canvas size the scanner component passes.
\<close>

definition example_resume :: ResumeData where
  "example_resume = \<lparr>name = Some ''Ada'', email = Some ''ada@x.org'', phone = None,
      skills = None, experience = None, education = None\<rparr>"

definition example_name :: PDFSection where
  "example_name = \<lparr>sec_type = Name, sec_text = ''Ada'',
      boundingBox = \<lparr>box_x = 100, box_y = 70, width = 200, height = 30\<rparr>,
      confidence = 95 / 100\<rparr>"

definition example_contact :: PDFSection where
  "example_contact = \<lparr>sec_type = Contact, sec_text = ''ada@x.org'',
      boundingBox = \<lparr>box_x = 180, box_y = 110, width = 250, height = 40\<rparr>,
      confidence = 9 / 10\<rparr>"

definition example_canvas :: Dimensions where
  "example_canvas = \<lparr>dim_width = 800, dim_height = 600\<rparr>"

section \<open>The loop computes the recursive description\<close>

lemma mem_map: "e \<in> set xs \<Longrightarrow> f e \<in> set (map f xs)"
  by simp

lemma upt_4: "[0..<4] = [0, 1, 2, 3]"
  by (simp add: upt_rec)

lemma foldl_push:
  "foldl (\<lambda>s v. push (f v) s) st xs = st\<lparr>storyboard := storyboard st @ map f xs\<rparr>"
  by (induction xs arbitrary: st) (simp_all add: push_def)

lemma push_path_eq:
  "push_path ps st =
     st\<lparr>storyboard := storyboard st @
        map (\<lambda>(pathIndex, point). move_at (currentTime st + int pathIndex * 100) point)
          (enumerate 0 ps)\<rparr>"
proof -
  have "push_path ps st =
      foldl (\<lambda>s v. push ((\<lambda>(pathIndex, point).
          move_at (currentTime st + int pathIndex * 100) point) v) s) st (enumerate 0 ps)"
    unfolding push_path_def move_at_def
    by (rule arg_cong [where f = "\<lambda>g. foldl g st (enumerate 0 ps)"]) (auto simp: fun_eq_iff)
  then show ?thesis by (simp only: foldl_push)
qed

lemma process_section_last:
  "length pre + 1 = length all \<Longrightarrow>
   process_section all st (length pre, s) =
     \<lparr>storyboard = storyboard st @ section_steps (currentTime st) s,
      currentTime = currentTime st + 36000\<rparr>"
  by (cases st)
     (simp add: process_section_def Let_def push_def advance_def section_steps_def move_at_def)

lemma process_section_next:
  "all = pre @ s # n # rest \<Longrightarrow>
   process_section all st (length pre, s) =
     \<lparr>storyboard = storyboard st @ section_steps (currentTime st) s
         @ path_steps (currentTime st + 36000) s n,
      currentTime = currentTime st + 36300\<rparr>"
  by (cases st)
     (simp add: process_section_def Let_def push_def advance_def section_steps_def
      push_path_eq path_steps_def transition_path_def nth_append add.commute move_at_def)

lemma foldl_process_section:
  "all = pre @ xs \<Longrightarrow>
   foldl (process_section all) st (enumerate (length pre) xs) =
     \<lparr>storyboard = storyboard st @ steps_from (currentTime st) xs,
      currentTime = time_from (currentTime st) xs\<rparr>"
proof (induction xs arbitrary: pre st rule: steps_from.induct [case_names Nil One More])
  case Nil
  then show ?case by simp
next
  case (One t s)
  then show ?case by (simp add: process_section_last)
next
  case (More t s n rest)
  have "all = (pre @ [s]) @ n # rest" using More.prems by simp
  from More.IH [OF this] More.prems show ?case
    by (simp add: process_section_next)
qed

lemma after_sections_eq:
  "after_sections ss =
     (case ss of [] \<Rightarrow> \<lparr>storyboard = [], currentTime = 0\<rparr>
      | s # _ \<Rightarrow> \<lparr>storyboard = move_at 0 (center (boundingBox s)) # steps_from 8000 ss,
                   currentTime = time_from 8000 ss\<rparr>)"
proof (cases ss)
  case Nil
  then show ?thesis by (simp add: after_sections_def initial_approach_def)
next
  case (Cons s rest)
  have "foldl (process_section ss) st (enumerate 0 ss) =
     \<lparr>storyboard = storyboard st @ steps_from (currentTime st) ss,
      currentTime = time_from (currentTime st) ss\<rparr>" for st
    using foldl_process_section [of ss "[]" ss st] by simp
  then show ?thesis using Cons
    by (simp add: after_sections_def initial_approach_def push_def advance_def move_at_def)
qed

lemma generate_Nil: "generateAnimationStoryboard [] d = [complete_at 0 d]"
  by (simp add: generateAnimationStoryboard_def after_sections_eq push_def complete_at_def)

lemma generate_Cons:
  "generateAnimationStoryboard (s # rest) d =
     move_at 0 (center (boundingBox s)) # steps_from 8000 (s # rest)
       @ [complete_at (time_from 8000 (s # rest)) d]"
  by (simp add: generateAnimationStoryboard_def after_sections_eq push_def complete_at_def)

section \<open>Facts about the recursive description\<close>

lemma length_createCurvedPath_real: "length (createCurvedPath_real a b steps) = steps + 1"
  by (simp add: createCurvedPath_real_def)

lemma length_transition_path: "length (transition_path s n) = 4"
  by (simp add: transition_path_def length_createCurvedPath_real)

lemma path_steps_eq:
  "path_steps t s n =
     [move_at t (transition_path s n ! 0), move_at (t + 100) (transition_path s n ! 1),
      move_at (t + 200) (transition_path s n ! 2), move_at (t + 300) (transition_path s n ! 3)]"
proof -
  have "map f (enumerate 0 ps) = [f (0, ps ! 0), f (1, ps ! 1), f (2, ps ! 2), f (3, ps ! 3)]"
    if "length ps = 4" for ps :: "Point list" and f :: "nat \<times> Point \<Rightarrow> AnimationStep"
  proof -
    from that obtain a b c e where "ps = [a, b, c, e]"
      by (auto simp: length_Suc_conv numeral_eq_Suc)
    then show ?thesis by (simp add: numeral_2_eq_2 numeral_3_eq_3)
  qed
  from this [OF length_transition_path] show ?thesis
    by (simp add: path_steps_def)
qed

lemma length_section_steps [simp]: "length (section_steps t s) = 5"
  by (simp add: section_steps_def)

lemma length_path_steps [simp]: "length (path_steps t s n) = 4"
  by (simp add: path_steps_eq)

lemma timeline_section_steps:
  "map timeline (section_steps t s) = [t, t + 8000, t + 20000, t + 28000, t + 32000]"
  by (simp add: section_steps_def move_at_def)

lemma action_section_steps:
  "map animation_action (section_steps t s) = [Move, Pause, Glow, Tag_popout, Beam_transfer]"
  by (simp add: section_steps_def move_at_def)

lemma timeline_path_steps:
  "map timeline (path_steps t s n) = [t, t + 100, t + 200, t + 300]"
  by (simp add: path_steps_eq move_at_def)

lemma action_path_steps:
  "map animation_action (path_steps t s n) = [Move, Move, Move, Move]"
  by (simp add: path_steps_eq move_at_def)

lemma time_from_eq: "ss \<noteq> [] \<Longrightarrow> time_from t ss = t + 36300 * int (length ss) - 300"
  by (induction t ss rule: time_from.induct) simp_all

lemma length_steps_from: "ss \<noteq> [] \<Longrightarrow> length (steps_from t ss) + 4 = 9 * length ss"
  by (induction t ss rule: steps_from.induct) simp_all

lemma count_action_map:
  "count_action a sb = length (filter (\<lambda>b. b = a) (map animation_action sb))"
  by (simp add: count_action_def filter_map comp_def)

lemma count_action_append:
  "count_action a (xs @ ys) = count_action a xs + count_action a ys"
  by (simp add: count_action_def)

lemma count_action_section_steps:
  "count_action a (section_steps t s) = (if a = Complete then 0 else 1)"
  by (cases a) (simp_all add: count_action_map action_section_steps)

lemma count_action_path_steps:
  "count_action a (path_steps t s n) = (if a = Move then 4 else 0)"
  by (cases a) (simp_all add: count_action_map action_path_steps)

lemma count_action_steps_from:
  "a \<noteq> Move \<Longrightarrow> a \<noteq> Complete \<Longrightarrow> count_action a (steps_from t ss) = length ss"
proof (induction t ss rule: steps_from.induct)
  case (1 t)
  then show ?case by (simp add: count_action_def)
next
  case (2 t s)
  then show ?case by (simp add: count_action_section_steps)
next
  case (3 t s n rest)
  then show ?case
    by (simp add: count_action_append count_action_section_steps count_action_path_steps)
qed

lemma action_in_section_steps:
  "e \<in> set (section_steps t s) \<Longrightarrow>
   animation_action e \<in> {Move, Pause, Glow, Tag_popout, Beam_transfer}"
  using mem_map [of e "section_steps t s" animation_action]
  by (simp add: action_section_steps)

lemma action_in_path_steps: "e \<in> set (path_steps t s n) \<Longrightarrow> animation_action e = Move"
  using mem_map [of e "path_steps t s n" animation_action]
  by (simp add: action_path_steps)

lemma timeline_in_section_steps:
  "e \<in> set (section_steps t s) \<Longrightarrow> t \<le> timeline e \<and> timeline e \<le> t + 32000"
  using mem_map [of e "section_steps t s" timeline]
  by (auto simp: timeline_section_steps)

lemma timeline_in_path_steps:
  "e \<in> set (path_steps t s n) \<Longrightarrow> t \<le> timeline e \<and> timeline e \<le> t + 300"
  using mem_map [of e "path_steps t s n" timeline]
  by (auto simp: timeline_path_steps)

lemma no_complete_steps_from:
  "e \<in> set (steps_from t ss) \<Longrightarrow> animation_action e \<noteq> Complete"
proof (induction t ss rule: steps_from.induct)
  case (1 t)
  then show ?case by simp
next
  case (2 t s)
  then show ?case using action_in_section_steps [of e t s] by auto
next
  case (3 t s n rest)
  then show ?case
    using action_in_section_steps [of e t s] action_in_path_steps [of e "t + 36000" s n]
    by auto
qed

lemma timeline_lower: "e \<in> set (steps_from t ss) \<Longrightarrow> t \<le> timeline e"
proof (induction t ss rule: steps_from.induct)
  case (1 t)
  then show ?case by simp
next
  case (2 t s)
  then show ?case using timeline_in_section_steps [of e t s] by simp
next
  case (3 t s n rest)
  then show ?case
    using timeline_in_section_steps [of e t s] timeline_in_path_steps [of e "t + 36000" s n]
    by auto
qed

lemma timeline_upper: "e \<in> set (steps_from t ss) \<Longrightarrow> timeline e < time_from t ss"
proof (induction t ss rule: steps_from.induct)
  case (1 t)
  then show ?case by simp
next
  case (2 t s)
  then show ?case using timeline_in_section_steps [of e t s] by simp
next
  case (3 t s n rest)
  have "t + 36300 < time_from (t + 36300) (n # rest)"
    by (simp add: time_from_eq)
  with 3 show ?case
    using timeline_in_section_steps [of e t s] timeline_in_path_steps [of e "t + 36000" s n]
    by auto
qed

lemma sorted_steps_from: "sorted (map timeline (steps_from t ss))"
proof (induction t ss rule: steps_from.induct)
  case (1 t)
  then show ?case by simp
next
  case (2 t s)
  then show ?case by (simp add: timeline_section_steps)
next
  case (3 t s n rest)
  have "\<forall>e \<in> set (steps_from (t + 36300) (n # rest)). t + 36300 \<le> timeline e"
    using timeline_lower by blast
  then show ?case using 3
    by (simp add: sorted_append timeline_section_steps timeline_path_steps) force
qed

lemma strict_section_steps:
  "Suc i < 5 \<Longrightarrow> timeline (section_steps t s ! i) < timeline (section_steps t s ! Suc i)"
proof -
  assume "Suc i < 5"
  then have "map timeline (section_steps t s) ! i < map timeline (section_steps t s) ! Suc i"
    unfolding timeline_section_steps
    by (auto simp: nth_Cons' less_Suc_eq numeral_eq_Suc)
  then show ?thesis using \<open>Suc i < 5\<close> by simp
qed

lemma strict_block:
  assumes "Suc i < 9"
  shows "timeline ((section_steps t s @ path_steps (t + 36000) s n) ! i)
       < timeline ((section_steps t s @ path_steps (t + 36000) s n) ! Suc i)"
proof -
  let ?b = "section_steps t s @ path_steps (t + 36000) s n"
  have m: "map timeline ?b =
      [t, t + 8000, t + 20000, t + 28000, t + 32000, t + 36000, t + 36100, t + 36200, t + 36300]"
    by (simp add: timeline_section_steps timeline_path_steps)
  have a: "map timeline ?b ! i = timeline (?b ! i)"
    by (rule nth_map) (use assms in simp)
  have b: "map timeline ?b ! Suc i = timeline (?b ! Suc i)"
    by (rule nth_map) (use assms in simp)
  have "i \<in> {0, 1, 2, 3, 4, 5, 6, 7}" using assms by auto
  then have "map timeline ?b ! i < map timeline ?b ! Suc i"
    unfolding m by auto
  then show ?thesis unfolding a b .
qed

lemma steps_from_ties:
  "Suc i < length (steps_from t ss) \<Longrightarrow>
   timeline (steps_from t ss ! i) = timeline (steps_from t ss ! Suc i) \<Longrightarrow>
   \<exists>k. Suc k < length ss \<and> i = 9 * k + 8"
proof (induction t ss arbitrary: i rule: steps_from.induct)
  case (1 t)
  then show ?case by simp
next
  case (2 t s)
  then show ?case using strict_section_steps [of i t s] by simp
next
  case (3 t s n rest)
  let ?b = "section_steps t s @ path_steps (t + 36000) s n"
  let ?r = "steps_from (t + 36300) (n # rest)"
  have eq: "steps_from t (s # n # rest) = ?b @ ?r" by simp
  have len: "length ?b = 9" by simp
  consider "Suc i < 9" | "i = 8" | "9 \<le> i" by linarith
  then show ?case
  proof cases
    case 1
    then have "steps_from t (s # n # rest) ! i = ?b ! i"
      and "steps_from t (s # n # rest) ! Suc i = ?b ! Suc i"
      unfolding eq by (simp_all add: nth_append)
    with strict_block [OF 1, of t s n] "3.prems"(2) show ?thesis by simp
  next
    case 2
    then show ?thesis by (intro exI [of _ 0]) simp
  next
    case 3
    then obtain j where j: "i = 9 + j" using le_Suc_ex by blast
    have "steps_from t (s # n # rest) ! i = ?r ! j"
      and "steps_from t (s # n # rest) ! Suc i = ?r ! Suc j"
      unfolding eq j by (simp_all add: nth_append)
    moreover have "Suc j < length ?r" using "3.prems"(1) unfolding eq j by simp
    ultimately obtain k where "Suc k < length (n # rest)" "j = 9 * k + 8"
      using "3.IH" [of j] "3.prems"(2) by auto
    then show ?thesis unfolding j by (intro exI [of _ "Suc k"]) simp
  qed
qed

lemma nth_steps_from_section:
  "k < length ss \<Longrightarrow> j < 5 \<Longrightarrow>
   steps_from t ss ! (9 * k + j) = section_steps (t + 36300 * int k) (ss ! k) ! j"
proof (induction t ss arbitrary: k rule: steps_from.induct)
  case (1 t)
  then show ?case by simp
next
  case (2 t s)
  then show ?case by simp
next
  case (3 t s n rest)
  show ?case
  proof (cases k)
    case 0
    then show ?thesis using "3.prems" by (simp add: nth_append)
  next
    case (Suc m)
    have "9 * k + j = 9 + (9 * m + j)" using Suc by simp
    then have "steps_from t (s # n # rest) ! (9 * k + j)
        = steps_from (t + 36300) (n # rest) ! (9 * m + j)"
      by (simp add: nth_append)
    also have "\<dots> = section_steps (t + 36300 + 36300 * int m) ((n # rest) ! m) ! j"
      using "3.IH" [of m] "3.prems" Suc by simp
    finally show ?thesis using Suc by (simp add: algebra_simps)
  qed
qed

lemma nth_steps_from_path:
  "Suc k < length ss \<Longrightarrow> j < 4 \<Longrightarrow>
   steps_from t ss ! (9 * k + 5 + j)
     = path_steps (t + 36300 * int k + 36000) (ss ! k) (ss ! Suc k) ! j"
proof (induction t ss arbitrary: k rule: steps_from.induct)
  case (1 t)
  then show ?case by simp
next
  case (2 t s)
  then show ?case by simp
next
  case (3 t s n rest)
  show ?case
  proof (cases k)
    case 0
    then show ?thesis using "3.prems" by (simp add: nth_append)
  next
    case (Suc m)
    have "9 * k + 5 + j = 9 + (9 * m + 5 + j)" using Suc by simp
    then have "steps_from t (s # n # rest) ! (9 * k + 5 + j)
        = steps_from (t + 36300) (n # rest) ! (9 * m + 5 + j)"
      by (simp add: nth_append add.commute add.left_commute)
    also have "\<dots> = path_steps (t + 36300 + 36300 * int m + 36000)
        ((n # rest) ! m) ((n # rest) ! Suc m) ! j"
      using "3.IH" [of m] "3.prems" Suc by simp
    finally show ?thesis using Suc by (simp add: algebra_simps)
  qed
qed

lemma nth_path_steps:
  "j < 4 \<Longrightarrow> path_steps t s n ! j = move_at (t + 100 * int j) (transition_path s n ! j)"
proof -
  assume "j < 4"
  then have "j \<in> {0, 1, 2, 3}" by auto
  then show ?thesis by (auto simp: path_steps_eq)
qed

lemma nth_generate:
  "m < length (steps_from 8000 ss) \<Longrightarrow>
   generateAnimationStoryboard ss d ! Suc m = steps_from 8000 ss ! m"
  by (cases ss) (simp_all add: generate_Cons nth_append)

lemma length_generate:
  "length (generateAnimationStoryboard (s # rest) d) = 9 * length rest + 7"
  using length_steps_from [of "s # rest" 8000] by (simp add: generate_Cons)

lemma fields_section_steps:
  "e \<in> set (section_steps t s) \<Longrightarrow>
   (highlight_area e \<noteq> None \<longleftrightarrow> animation_action e \<in> {Pause, Glow}) \<and>
   (tag_text e \<noteq> None \<longleftrightarrow> animation_action e \<in> {Pause, Glow, Tag_popout})"
  by (auto simp: section_steps_def move_at_def)

lemma fields_path_steps:
  "e \<in> set (path_steps t s n) \<Longrightarrow>
   highlight_area e = None \<and> tag_text e = None \<and> animation_action e = Move"
  by (auto simp: path_steps_eq move_at_def)

lemma fields_steps_from:
  "e \<in> set (steps_from t ss) \<Longrightarrow>
   (highlight_area e \<noteq> None \<longleftrightarrow> animation_action e \<in> {Pause, Glow}) \<and>
   (tag_text e \<noteq> None \<longleftrightarrow> animation_action e \<in> {Pause, Glow, Tag_popout})"
proof (induction t ss rule: steps_from.induct)
  case (1 t)
  then show ?case by simp
next
  case (2 t s)
  then show ?case using fields_section_steps [of e t s] by simp
next
  case (3 t s n rest)
  from "3.prems" consider "e \<in> set (section_steps t s)"
    | "e \<in> set (path_steps (t + 36000) s n)"
    | "e \<in> set (steps_from (t + 36300) (n # rest))" by auto
  then show ?case
  proof cases
    case 1
    then show ?thesis by (rule fields_section_steps)
  next
    case 2
    then show ?thesis using fields_path_steps [of e "t + 36000" s n] by simp
  next
    case 3
    then show ?thesis by (rule "3.IH")
  qed
qed

section \<open>Properties of generateAnimationStoryboard\<close>

text \<open>
  C9. For the empty region list the generator returns exactly one step: \<open>complete\<close> at
  time 0, positioned at the centre of the canvas. The block of the initial approach
  and the body of the loop are both skipped; nothing in the function can throw.
\<close>

theorem empty_regions_single_complete:
  "generateAnimationStoryboard [] d =
     [\<lparr>timeline = 0,
       bubble_position = \<lparr>pos_x = dim_width d / 2, pos_y = dim_height d / 2\<rparr>,
       highlight_area = None, tag_text = None, animation_action = Complete,
       section_type = None\<rparr>]"
  by (simp add: generate_Nil complete_at_def)

text \<open>
  C1, as the code has it. For a single region the storyboard has seven steps, not six:
  the move of the initial approach at time 0 and the move of the region itself at time
  8000, both to the centre of the region, then pause, glow, tag pop-out, beam transfer
  and complete. The loop body pushes its move for every index, the first included.
  The time stamps are strictly increasing.
\<close>

theorem single_region_seven_steps:
  "generateAnimationStoryboard [s] d =
     [\<lparr>timeline = 0, bubble_position = center (boundingBox s),
       highlight_area = None, tag_text = None, animation_action = Move,
       section_type = None\<rparr>,
      \<lparr>timeline = 8000, bubble_position = center (boundingBox s),
       highlight_area = None, tag_text = None, animation_action = Move,
       section_type = None\<rparr>,
      \<lparr>timeline = 16000, bubble_position = center (boundingBox s),
       highlight_area = Some (boundingBox s), tag_text = Some (getTagText (sec_type s)),
       animation_action = Pause, section_type = Some (sec_type s)\<rparr>,
      \<lparr>timeline = 28000, bubble_position = center (boundingBox s),
       highlight_area = Some (boundingBox s), tag_text = Some (getTagText (sec_type s)),
       animation_action = Glow, section_type = Some (sec_type s)\<rparr>,
      \<lparr>timeline = 36000, bubble_position = center (boundingBox s),
       highlight_area = None, tag_text = Some (getTagText (sec_type s)),
       animation_action = Tag_popout, section_type = Some (sec_type s)\<rparr>,
      \<lparr>timeline = 40000, bubble_position = center (boundingBox s),
       highlight_area = None, tag_text = None,
       animation_action = Beam_transfer, section_type = Some (sec_type s)\<rparr>,
      \<lparr>timeline = 44000,
       bubble_position = \<lparr>pos_x = dim_width d / 2, pos_y = dim_height d / 2\<rparr>,
       highlight_area = None, tag_text = None, animation_action = Complete,
       section_type = None\<rparr>]
   \<and> sorted_wrt (<) (map timeline (generateAnimationStoryboard [s] d))"
  by (simp add: generate_Cons section_steps_def move_at_def complete_at_def)

text \<open>
  C1, as the claim states it, fails: the storyboard of the single region
  \<open>example_name\<close> has seven steps, and its first two steps are both moves.
\<close>

theorem single_region_six_steps_counterexample:
  "length (generateAnimationStoryboard [example_name] example_canvas) \<noteq> 6
   \<and> map animation_action (generateAnimationStoryboard [example_name] example_canvas)
       = [Move, Move, Pause, Glow, Tag_popout, Beam_transfer, Complete]
   \<and> bubble_position (generateAnimationStoryboard [example_name] example_canvas ! 0)
       = bubble_position (generateAnimationStoryboard [example_name] example_canvas ! 1)"
  by (simp add: generate_Cons section_steps_def move_at_def complete_at_def)

text \<open>
  C2. The storyboard is not empty whenever there is a region; its last step is a
  \<open>complete\<close> step and no step before the last is one; and for \<open>N \<ge> 2\<close> regions it has
  exactly \<open>N\<close> steps of each of the actions pause, glow, tag pop-out and beam transfer.
\<close>

theorem storyboard_shape:
  "(ss \<noteq> [] \<longrightarrow> generateAnimationStoryboard ss d \<noteq> [])
   \<and> animation_action (last (generateAnimationStoryboard ss d)) = Complete
   \<and> (\<forall>e \<in> set (butlast (generateAnimationStoryboard ss d)). animation_action e \<noteq> Complete)
   \<and> (2 \<le> length ss \<longrightarrow>
        count_action Pause (generateAnimationStoryboard ss d) = length ss
      \<and> count_action Glow (generateAnimationStoryboard ss d) = length ss
      \<and> count_action Tag_popout (generateAnimationStoryboard ss d) = length ss
      \<and> count_action Beam_transfer (generateAnimationStoryboard ss d) = length ss)"
proof (cases ss)
  case Nil
  then show ?thesis by (simp add: generate_Nil complete_at_def)
next
  case (Cons s rest)
  let ?sb = "generateAnimationStoryboard ss d"
  have sb: "?sb = (move_at 0 (center (boundingBox s)) # steps_from 8000 ss)
      @ [complete_at (time_from 8000 ss) d]"
    using Cons by (simp add: generate_Cons)
  have "\<forall>e \<in> set (butlast ?sb). animation_action e \<noteq> Complete"
    unfolding sb butlast_snoc using no_complete_steps_from [of _ 8000 ss]
    by (auto simp: move_at_def)
  moreover have "animation_action (last ?sb) = Complete"
    unfolding sb by (simp add: complete_at_def)
  moreover have "count_action a ?sb = length ss" if "a \<noteq> Move" "a \<noteq> Complete" for a
  proof -
    have "count_action a ?sb = count_action a (steps_from 8000 ss)"
      unfolding sb using that
      by (simp add: count_action_append) (simp add: count_action_def move_at_def complete_at_def)
    then show ?thesis using that by (simp add: count_action_steps_from)
  qed
  moreover have "?sb \<noteq> []" unfolding sb by simp
  ultimately show ?thesis by simp
qed

theorem storyboard_shape_witness:
  "[example_name, example_contact] \<noteq> []
   \<and> 2 \<le> length [example_name, example_contact]
   \<and> generateAnimationStoryboard [example_name, example_contact] example_canvas \<noteq> []
   \<and> count_action Pause
        (generateAnimationStoryboard [example_name, example_contact] example_canvas) = 2
   \<and> count_action Beam_transfer
        (generateAnimationStoryboard [example_name, example_contact] example_canvas) = 2
   \<and> hd (generateAnimationStoryboard [example_name, example_contact] example_canvas)
        \<in> set (butlast
          (generateAnimationStoryboard [example_name, example_contact] example_canvas))
   \<and> animation_action
        (hd (generateAnimationStoryboard [example_name, example_contact] example_canvas))
        \<noteq> Complete"
  using storyboard_shape [of "[example_name, example_contact]" example_canvas]
  by (simp add: generate_Cons section_steps_def path_steps_eq move_at_def)

text \<open>
  C8. The last step of every storyboard is a \<open>complete\<close> step at the centre of the
  canvas, scheduled at the value the time cursor has when the loop has ended. That value
  is 0 for no region and \<open>44000 + 36300 * (N - 1)\<close> for \<open>N \<ge> 1\<close> regions.
\<close>

theorem last_step_complete_at_center:
  "last (generateAnimationStoryboard ss d) =
     \<lparr>timeline = currentTime (after_sections ss),
      bubble_position = \<lparr>pos_x = dim_width d / 2, pos_y = dim_height d / 2\<rparr>,
      highlight_area = None, tag_text = None, animation_action = Complete,
      section_type = None\<rparr>
   \<and> currentTime (after_sections []) = 0
   \<and> currentTime (after_sections (s # rest)) = 44000 + 36300 * int (length rest)"
  by (simp add: generateAnimationStoryboard_def push_def Let_def)
     (simp add: after_sections_eq time_from_eq)

lemma generate_section_step:
  assumes "k < length ss" "j < 5"
  shows "generateAnimationStoryboard ss d ! (9 * k + 1 + j)
       = section_steps (8000 + 36300 * int k) (ss ! k) ! j"
proof -
  have "ss \<noteq> []" using assms by auto
  then have "length (steps_from 8000 ss) + 4 = 9 * length ss"
    by (rule length_steps_from)
  then have "9 * k + j < length (steps_from 8000 ss)" using assms by linarith
  then have "generateAnimationStoryboard ss d ! Suc (9 * k + j) = steps_from 8000 ss ! (9 * k + j)"
    by (rule nth_generate)
  then show ?thesis using nth_steps_from_section [OF assms, of 8000] by simp
qed

lemma generate_path_step:
  assumes "Suc k < length ss" "j < 4"
  shows "generateAnimationStoryboard ss d ! (9 * k + 6 + j)
       = move_at (44000 + 36300 * int k + 100 * int j) (transition_path (ss ! k) (ss ! Suc k) ! j)"
proof -
  have "ss \<noteq> []" using assms by auto
  then have "length (steps_from 8000 ss) + 4 = 9 * length ss"
    by (rule length_steps_from)
  then have "9 * k + 5 + j < length (steps_from 8000 ss)" using assms by linarith
  then have "generateAnimationStoryboard ss d ! Suc (9 * k + 5 + j)
      = steps_from 8000 ss ! (9 * k + 5 + j)"
    by (rule nth_generate)
  then show ?thesis
    using nth_steps_from_path [OF assms, of 8000] nth_path_steps [OF assms(2)]
    by (simp add: algebra_simps)
qed

text \<open>
  C10. Between region \<open>k\<close> and region \<open>k + 1\<close> of a list of at least two regions the
  storyboard holds exactly the four points of the curved path as moves, at the cursor
  \<open>T = 44000 + 36300 * k\<close> reached after the beam transfer of region \<open>k\<close> and at
  \<open>T + 100\<close>, \<open>T + 200\<close>, \<open>T + 300\<close>. The cursor then stands at \<open>T + 300\<close>: the move of
  region \<open>k + 1\<close> follows with the time stamp of the last path move, and its pause one
  move duration later. In the storyboard the beam transfer of region \<open>k\<close> has index
  \<open>9 * k + 5\<close>, the path moves the next four indices, the move of region \<open>k + 1\<close> index
  \<open>9 * k + 10\<close>.
\<close>

theorem transition_path_timing:
  assumes "Suc k < length ss"
  shows "2 \<le> length ss
   \<and> length (transition_path (ss ! k) (ss ! Suc k)) = 4
   \<and> animation_action (generateAnimationStoryboard ss d ! (9 * k + 5)) = Beam_transfer
   \<and> timeline (generateAnimationStoryboard ss d ! (9 * k + 5)) + beamTime
       = 44000 + 36300 * int k
   \<and> generateAnimationStoryboard ss d ! (9 * k + 6)
       = move_at (44000 + 36300 * int k) (transition_path (ss ! k) (ss ! Suc k) ! 0)
   \<and> generateAnimationStoryboard ss d ! (9 * k + 7)
       = move_at (44000 + 36300 * int k + 100) (transition_path (ss ! k) (ss ! Suc k) ! 1)
   \<and> generateAnimationStoryboard ss d ! (9 * k + 8)
       = move_at (44000 + 36300 * int k + 200) (transition_path (ss ! k) (ss ! Suc k) ! 2)
   \<and> generateAnimationStoryboard ss d ! (9 * k + 9)
       = move_at (44000 + 36300 * int k + 300) (transition_path (ss ! k) (ss ! Suc k) ! 3)
   \<and> generateAnimationStoryboard ss d ! (9 * k + 10)
       = move_at (44000 + 36300 * int k + 300) (center (boundingBox (ss ! Suc k)))
   \<and> timeline (generateAnimationStoryboard ss d ! (9 * k + 9))
       = timeline (generateAnimationStoryboard ss d ! (9 * k + 10))
   \<and> animation_action (generateAnimationStoryboard ss d ! (9 * k + 11)) = Pause
   \<and> timeline (generateAnimationStoryboard ss d ! (9 * k + 11))
       = 44000 + 36300 * int k + 300 + moveTime"
proof -
  let ?sb = "generateAnimationStoryboard ss d"
  let ?T = "44000 + 36300 * int k"
  have k: "k < length ss" using assms by simp
  have beam: "?sb ! (9 * k + 5) = section_steps (8000 + 36300 * int k) (ss ! k) ! 4"
    using generate_section_step [OF k, of 4 d] by (simp add: ac_simps)
  have p0: "?sb ! (9 * k + 6) = move_at ?T (transition_path (ss ! k) (ss ! Suc k) ! 0)"
    using generate_path_step [OF assms, of 0 d] by (simp add: ac_simps)
  have p1: "?sb ! (9 * k + 7) = move_at (?T + 100) (transition_path (ss ! k) (ss ! Suc k) ! 1)"
    using generate_path_step [OF assms, of 1 d] by (simp add: ac_simps)
  have p2: "?sb ! (9 * k + 8) = move_at (?T + 200) (transition_path (ss ! k) (ss ! Suc k) ! 2)"
    using generate_path_step [OF assms, of 2 d] by (simp add: ac_simps)
  have p3: "?sb ! (9 * k + 9) = move_at (?T + 300) (transition_path (ss ! k) (ss ! Suc k) ! 3)"
    using generate_path_step [OF assms, of 3 d] by (simp add: ac_simps)
  have "9 * Suc k + 1 + 0 = 9 * k + 10" by simp
  then have mv: "?sb ! (9 * k + 10) = section_steps (8000 + 36300 * int (Suc k)) (ss ! Suc k) ! 0"
    using generate_section_step [OF assms, of 0 d] by (simp add: ac_simps)
  have "9 * Suc k + 1 + 1 = 9 * k + 11" by simp
  then have pa: "?sb ! (9 * k + 11) = section_steps (8000 + 36300 * int (Suc k)) (ss ! Suc k) ! 1"
    using generate_section_step [OF assms, of 1 d] by (simp add: ac_simps)
  have "2 \<le> length ss" using assms by simp
  moreover note length_transition_path [of "ss ! k" "ss ! Suc k"]
  moreover have "animation_action (?sb ! (9 * k + 5)) = Beam_transfer"
    and "timeline (?sb ! (9 * k + 5)) + beamTime = ?T"
    unfolding beam by (simp_all add: section_steps_def)
  moreover have "?sb ! (9 * k + 10) = move_at (?T + 300) (center (boundingBox (ss ! Suc k)))"
    unfolding mv by (simp add: section_steps_def algebra_simps)
  moreover have "timeline (?sb ! (9 * k + 9)) = timeline (?sb ! (9 * k + 10))"
    unfolding mv p3 by (simp add: section_steps_def move_at_def algebra_simps)
  moreover have "animation_action (?sb ! (9 * k + 11)) = Pause"
    and "timeline (?sb ! (9 * k + 11)) = ?T + 300 + moveTime"
    unfolding pa by (simp_all add: section_steps_def algebra_simps)
  ultimately show ?thesis using p0 p1 p2 p3 by simp
qed

theorem transition_path_timing_witness:
  "Suc 0 < length [example_name, example_contact]
   \<and> timeline (generateAnimationStoryboard [example_name, example_contact] example_canvas ! 6)
       = 44000
   \<and> timeline (generateAnimationStoryboard [example_name, example_contact] example_canvas ! 9)
       = 44300
   \<and> timeline (generateAnimationStoryboard [example_name, example_contact] example_canvas ! 10)
       = 44300
   \<and> generateAnimationStoryboard [example_name, example_contact] example_canvas ! 10
       = move_at 44300 \<lparr>pos_x = 305, pos_y = 130\<rparr>"
  using transition_path_timing [of 0 "[example_name, example_contact]" example_canvas]
  by (simp add: move_at_def center_def example_contact_def)

text \<open>
  C7. In every storyboard a step carries a highlight area exactly when its action is
  pause or glow, and a tag text exactly when its action is pause, glow or tag pop-out.
\<close>

theorem optional_fields_by_action:
  assumes "e \<in> set (generateAnimationStoryboard ss d)"
  shows "(highlight_area e \<noteq> None \<longleftrightarrow> animation_action e \<in> {Pause, Glow})
       \<and> (tag_text e \<noteq> None \<longleftrightarrow> animation_action e \<in> {Pause, Glow, Tag_popout})"
proof (cases ss)
  case Nil
  then show ?thesis using assms by (simp add: generate_Nil complete_at_def)
next
  case (Cons s rest)
  with assms consider "e = move_at 0 (center (boundingBox s))"
    | "e \<in> set (steps_from 8000 ss)" | "e = complete_at (time_from 8000 ss) d"
    by (auto simp: generate_Cons)
  then show ?thesis
  proof cases
    case 1
    then show ?thesis by (simp add: move_at_def)
  next
    case 2
    then show ?thesis by (rule fields_steps_from)
  next
    case 3
    then show ?thesis by (simp add: complete_at_def)
  qed
qed

theorem optional_fields_by_action_witness:
  "generateAnimationStoryboard [example_name] example_canvas ! 2
     \<in> set (generateAnimationStoryboard [example_name] example_canvas)
   \<and> highlight_area (generateAnimationStoryboard [example_name] example_canvas ! 2) \<noteq> None
   \<and> tag_text (generateAnimationStoryboard [example_name] example_canvas ! 2)
       = Some ''Name Detected''
   \<and> animation_action (generateAnimationStoryboard [example_name] example_canvas ! 2) = Pause"
  using optional_fields_by_action [of
      "generateAnimationStoryboard [example_name] example_canvas ! 2"
      "[example_name]" example_canvas]
  by (simp add: generate_Cons section_steps_def move_at_def complete_at_def example_name_def)

text \<open>
  C5. The time stamps of every storyboard are non-decreasing from the first step to the
  last. Two neighbouring steps have the same time stamp only at the end of a transition
  path: the earlier one is the last path move between region \<open>k\<close> and region \<open>k + 1\<close>
  (index \<open>9 * k + 9\<close>) and the later one is the move of region \<open>k + 1\<close>.
\<close>

theorem timestamps_nondecreasing:
  "sorted (map timeline (generateAnimationStoryboard ss d))
   \<and> (\<forall>i. Suc i < length (generateAnimationStoryboard ss d)
          \<and> timeline (generateAnimationStoryboard ss d ! i)
             = timeline (generateAnimationStoryboard ss d ! Suc i)
        \<longrightarrow> (\<exists>k. Suc k < length ss \<and> i = 9 * k + 9
              \<and> generateAnimationStoryboard ss d ! i
                 = move_at (44300 + 36300 * int k) (transition_path (ss ! k) (ss ! Suc k) ! 3)
              \<and> generateAnimationStoryboard ss d ! Suc i
                 = move_at (44300 + 36300 * int k) (center (boundingBox (ss ! Suc k)))))"
proof (cases ss)
  case Nil
  then show ?thesis by (simp add: generate_Nil)
next
  case (Cons s rest)
  let ?sb = "generateAnimationStoryboard ss d"
  let ?st = "steps_from 8000 ss"
  let ?c = "complete_at (time_from 8000 ss) d"
  have sb: "?sb = move_at 0 (center (boundingBox s)) # ?st @ [?c]"
    using Cons by (simp add: generate_Cons)
  have len: "length ?sb = length ?st + 2" unfolding sb by simp
  have lo: "8000 \<le> timeline e" if "e \<in> set ?st" for e
    using that by (rule timeline_lower)
  have up: "timeline e < time_from 8000 ss" if "e \<in> set ?st" for e
    using that by (rule timeline_upper)
  have "timeline e \<le> timeline ?c" if "e \<in> set ?st" for e
    using up [OF that] by (simp add: complete_at_def)
  then have "sorted (map timeline (?st @ [?c]))"
    using sorted_steps_from [of 8000 ss] by (simp add: sorted_append)
  moreover have "0 \<le> timeline ?c"
    using Cons by (simp add: complete_at_def time_from_eq)
  moreover have "0 \<le> timeline e" if "e \<in> set ?st" for e
    using lo [OF that] by simp
  ultimately have "sorted (map timeline ?sb)"
    unfolding sb by (auto simp: move_at_def)
  moreover have "\<exists>k. Suc k < length ss \<and> i = 9 * k + 9
        \<and> ?sb ! i = move_at (44300 + 36300 * int k) (transition_path (ss ! k) (ss ! Suc k) ! 3)
        \<and> ?sb ! Suc i = move_at (44300 + 36300 * int k) (center (boundingBox (ss ! Suc k)))"
    if i: "Suc i < length ?sb" and eq: "timeline (?sb ! i) = timeline (?sb ! Suc i)" for i
  proof (cases i)
    case 0
    have "length ?st + 4 = 9 * length ss"
      using Cons by (simp add: length_steps_from)
    then have "?st \<noteq> []" using Cons by auto
    then have "?sb ! Suc 0 \<in> set ?st" unfolding sb by (simp add: nth_append)
    from lo [OF this] eq 0 have False unfolding sb by (simp add: move_at_def)
    then show ?thesis ..
  next
    case (Suc m)
    have m: "m < length ?st" using i len Suc by simp
    have a: "?sb ! i = ?st ! m" unfolding Suc using m by (rule nth_generate)
    show ?thesis
    proof (cases "Suc m < length ?st")
      case True
      then have b: "?sb ! Suc i = ?st ! Suc m" unfolding Suc by (rule nth_generate)
      from steps_from_ties [OF True] eq a b obtain k
        where k: "Suc k < length ss" "m = 9 * k + 8" by auto
      have "i = 9 * k + 9" using k Suc by simp
      moreover have "?sb ! (9 * k + 9)
          = move_at (44300 + 36300 * int k) (transition_path (ss ! k) (ss ! Suc k) ! 3)"
        using generate_path_step [OF k(1), of 3 d] by (simp add: ac_simps)
      moreover have "9 * Suc k + 1 + 0 = Suc (9 * k + 9)" by simp
      then have "?sb ! Suc (9 * k + 9)
          = move_at (44300 + 36300 * int k) (center (boundingBox (ss ! Suc k)))"
        using generate_section_step [OF k(1), of 0 d]
        by (simp add: section_steps_def algebra_simps)
      ultimately show ?thesis using k(1) by blast
    next
      case False
      then have "Suc m = length ?st" using m by simp
      then have "?sb ! Suc i = ?c" unfolding Suc sb by (simp add: nth_append)
      moreover have "?st ! m \<in> set ?st" using m by simp
      from up [OF this] have "timeline (?sb ! i) < timeline ?c"
        unfolding a by (simp add: complete_at_def)
      ultimately have False using eq by simp
      then show ?thesis ..
    qed
  qed
  ultimately show ?thesis by blast
qed

theorem timestamps_nondecreasing_witness:
  "sorted (map timeline
      (generateAnimationStoryboard [example_name, example_contact] example_canvas))
   \<and> Suc 9 < length (generateAnimationStoryboard [example_name, example_contact] example_canvas)
   \<and> timeline (generateAnimationStoryboard [example_name, example_contact] example_canvas ! 9)
     = timeline
         (generateAnimationStoryboard [example_name, example_contact] example_canvas ! Suc 9)
   \<and> (\<exists>k. Suc k < length [example_name, example_contact] \<and> (9::nat) = 9 * k + 9)"
proof -
  let ?sb = "generateAnimationStoryboard [example_name, example_contact] example_canvas"
  have a: "Suc 9 < length ?sb" by (simp add: length_generate)
  have b: "timeline (?sb ! 9) = timeline (?sb ! Suc 9)"
    by (simp add: generate_Cons section_steps_def path_steps_eq move_at_def)
  from timestamps_nondecreasing [of "[example_name, example_contact]" example_canvas] a b
  show ?thesis by blast
qed

section \<open>Properties of extractPDFSections\<close>

lemma truthy_iff: "truthy v \<longleftrightarrow> v \<noteq> None \<and> v \<noteq> Some []"
  by (simp add: truthy_def split: option.splits)

lemma kinds_extractPDFSections:
  "map sec_type (extractPDFSections rd)
     = filter (group_present rd) [Name, Contact, Skills, Experience, Education]"
  by (simp add: extractPDFSections_def truthy_iff split: option.splits)

lemma confidence_extractPDFSections:
  "r \<in> set (extractPDFSections rd) \<Longrightarrow> confidence r = kind_confidence (sec_type r)"
  by (auto simp: extractPDFSections_def split: option.splits if_splits)

lemma name_text_extractPDFSections:
  "r \<in> set (extractPDFSections rd) \<Longrightarrow> sec_type r = Name \<Longrightarrow> sec_text r \<noteq> []"
  by (auto simp: extractPDFSections_def split: option.splits if_splits)

lemma kind_confidence_bounds: "0 \<le> kind_confidence k \<and> kind_confidence k \<le> 1"
  by (cases k) simp_all

lemma descending_filter:
  "sorted_wrt (>) (map kind_confidence (filter P [Name, Contact, Skills, Experience, Education]))"
  by simp

lemma join_empty_iff:
  "sep \<noteq> [] \<Longrightarrow> join sep vs = [] \<longleftrightarrow> vs = [] \<or> (\<exists>v. vs = [v] \<and> or_empty v = [])"
  by (induction sep vs rule: join.induct) simp_all

lemma trim_empty_iff: "trim s = [] \<longleftrightarrow> (\<forall>c \<in> set s. is_space c)"
proof
  assume "trim s = []"
  then have a: "\<forall>c \<in> set (dropWhile is_space s). is_space c"
    by (simp add: trim_def dropWhile_eq_Nil_conv)
  have "dropWhile is_space s = []"
  proof (rule ccontr)
    assume n: "dropWhile is_space s \<noteq> []"
    then have "\<not> is_space (hd (dropWhile is_space s))" by (rule hd_dropWhile)
    moreover have "hd (dropWhile is_space s) \<in> set (dropWhile is_space s)"
      using n by simp
    ultimately show False using a by blast
  qed
  then show "\<forall>c \<in> set s. is_space c" by (simp add: dropWhile_eq_Nil_conv)
next
  assume "\<forall>c \<in> set s. is_space c"
  then show "trim s = []" by (auto simp: trim_def dest: set_dropWhileD)
qed

lemma is_space_blank: "is_space CHR '' ''"
  by (simp add: is_space_def)

lemma contact_text_extractPDFSections:
  "r \<in> set (extractPDFSections rd) \<Longrightarrow> sec_type r = Contact \<Longrightarrow>
   sec_text r = [] \<longleftrightarrow> (\<forall>c \<in> set (or_empty (email rd) @ or_empty (phone rd)). is_space c)"
  by (auto simp: extractPDFSections_def trim_empty_iff is_space_blank
      split: option.splits if_splits)

lemma skills_text_extractPDFSections:
  "r \<in> set (extractPDFSections rd) \<Longrightarrow> sec_type r = Skills \<Longrightarrow>
   sec_text r = [] \<longleftrightarrow> skills rd = Some [[]]"
  by (auto simp: extractPDFSections_def join_empty_iff or_empty_def
      split: option.splits if_splits)

lemma experience_text_extractPDFSections:
  "r \<in> set (extractPDFSections rd) \<Longrightarrow> sec_type r = Experience \<Longrightarrow>
   sec_text r = [] \<longleftrightarrow> (\<exists>item. experience rd = Some [item] \<and> or_empty (role item) = [])"
  by (auto simp: extractPDFSections_def join_empty_iff split: option.splits if_splits) metis

lemma education_text_extractPDFSections:
  "r \<in> set (extractPDFSections rd) \<Longrightarrow> sec_type r = Education \<Longrightarrow>
   sec_text r = [] \<longleftrightarrow> (\<exists>item. education rd = Some [item] \<and> or_empty (degree item) = [])"
  by (auto simp: extractPDFSections_def join_empty_iff split: option.splits if_splits) metis

text \<open>
  C4, as the code has it. The kinds of the regions returned are the kinds of the field
  groups that are present, in the order name, contact, skills, experience, education,
  each at most once: a group is omitted exactly when its source data is absent or empty.
  A name region never has empty text. The text of a contact region is empty exactly
  when email and phone together hold nothing but white space; the text of a skills
  region exactly when the list is the single empty string; the text of an experience
  or education region exactly when the list has a single item whose role, or degree,
  is missing or the empty string.
\<close>

theorem regions_follow_present_groups:
  "map sec_type (extractPDFSections rd)
     = filter (group_present rd) [Name, Contact, Skills, Experience, Education]
   \<and> distinct (map sec_type (extractPDFSections rd))
   \<and> (\<forall>r \<in> set (extractPDFSections rd).
        (sec_type r = Name \<longrightarrow> sec_text r \<noteq> [])
      \<and> (sec_type r = Contact \<longrightarrow>
           (sec_text r = [] \<longleftrightarrow>
              (\<forall>c \<in> set (or_empty (email rd) @ or_empty (phone rd)). is_space c)))
      \<and> (sec_type r = Skills \<longrightarrow> (sec_text r = [] \<longleftrightarrow> skills rd = Some [[]]))
      \<and> (sec_type r = Experience \<longrightarrow>
           (sec_text r = [] \<longleftrightarrow>
              (\<exists>item. experience rd = Some [item] \<and> or_empty (role item) = [])))
      \<and> (sec_type r = Education \<longrightarrow>
           (sec_text r = [] \<longleftrightarrow>
              (\<exists>item. education rd = Some [item] \<and> or_empty (degree item) = []))))"
proof -
  have "distinct (filter (group_present rd) [Name, Contact, Skills, Experience, Education])"
    by (rule distinct_filter) simp
  then have "distinct (map sec_type (extractPDFSections rd))"
    by (simp only: kinds_extractPDFSections)
  then show ?thesis
    using kinds_extractPDFSections [of rd] name_text_extractPDFSections [of _ rd]
      contact_text_extractPDFSections [of _ rd] skills_text_extractPDFSections [of _ rd]
      experience_text_extractPDFSections [of _ rd] education_text_extractPDFSections [of _ rd]
    by blast
qed

theorem regions_follow_present_groups_witness:
  "map sec_type (extractPDFSections example_resume) = [Name, Contact]
   \<and> hd (extractPDFSections example_resume) \<in> set (extractPDFSections example_resume)
   \<and> sec_type (hd (extractPDFSections example_resume)) = Name
   \<and> sec_text (hd (extractPDFSections example_resume)) \<noteq> []
   \<and> extractPDFSections example_resume ! 1 \<in> set (extractPDFSections example_resume)
   \<and> sec_type (extractPDFSections example_resume ! 1) = Contact
   \<and> sec_text (extractPDFSections example_resume ! 1) = ''ada@x.org''
   \<and> \<not> is_space CHR ''a''"
  using regions_follow_present_groups [of example_resume]
  by (simp add: extractPDFSections_def example_resume_def truthy_def or_empty_def trim_def
      is_space_def)

text \<open>
  C4, as the claim states it, fails: a region with empty text is returned for a skills
  list whose only item is the empty string, for an email of one space (it is truthy,
  and \<open>trim\<close> leaves nothing of it), and for an experience or education list whose only
  item has the empty string as role or degree.
\<close>

theorem region_with_empty_text_counterexample:
  "extractPDFSections \<lparr>name = None, email = None, phone = None, skills = Some [[]],
       experience = None, education = None\<rparr>
     = [\<lparr>sec_type = Skills, sec_text = [],
         boundingBox = \<lparr>box_x = 130, box_y = 190, width = 300, height = 60\<rparr>,
         confidence = 85 / 100\<rparr>]
   \<and> extractPDFSections \<lparr>name = None, email = Some '' '', phone = None, skills = None,
       experience = None, education = None\<rparr>
     = [\<lparr>sec_type = Contact, sec_text = [],
         boundingBox = \<lparr>box_x = 180, box_y = 110, width = 250, height = 40\<rparr>,
         confidence = 9 / 10\<rparr>]
   \<and> extractPDFSections \<lparr>name = None, email = None, phone = None, skills = None,
       experience = Some [\<lparr>role = Some []\<rparr>], education = None\<rparr>
     = [\<lparr>sec_type = Experience, sec_text = [],
         boundingBox = \<lparr>box_x = 160, box_y = 290, width = 350, height = 100\<rparr>,
         confidence = 8 / 10\<rparr>]
   \<and> extractPDFSections \<lparr>name = None, email = None, phone = None, skills = None,
       experience = None, education = Some [\<lparr>degree = Some []\<rparr>]\<rparr>
     = [\<lparr>sec_type = Education, sec_text = [],
         boundingBox = \<lparr>box_x = 200, box_y = 440, width = 280, height = 80\<rparr>,
         confidence = 75 / 100\<rparr>]"
  by (simp add: extractPDFSections_def truthy_def or_empty_def trim_def is_space_def)

text \<open>
  C6. Every region returned carries the confidence constant of its kind, whatever the
  input; the five constants lie between 0 and 1 and strictly descend from name over
  contact, skills and experience to education, so the confidences of every returned
  list strictly descend as well.
\<close>

theorem confidence_fixed_by_kind:
  "(\<forall>r \<in> set (extractPDFSections rd).
       confidence r = kind_confidence (sec_type r) \<and> 0 \<le> confidence r \<and> confidence r \<le> 1)
   \<and> (\<forall>k. 0 \<le> kind_confidence k \<and> kind_confidence k \<le> 1)
   \<and> kind_confidence Contact < kind_confidence Name
   \<and> kind_confidence Skills < kind_confidence Contact
   \<and> kind_confidence Experience < kind_confidence Skills
   \<and> kind_confidence Education < kind_confidence Experience
   \<and> sorted_wrt (>) (map confidence (extractPDFSections rd))"
proof -
  have a: "confidence r = kind_confidence (sec_type r)" if "r \<in> set (extractPDFSections rd)" for r
    using that by (rule confidence_extractPDFSections)
  then have "map confidence (extractPDFSections rd)
      = map kind_confidence (map sec_type (extractPDFSections rd))"
    by simp
  then have "sorted_wrt (>) (map confidence (extractPDFSections rd))"
    by (simp only: kinds_extractPDFSections descending_filter)
  then show ?thesis using a kind_confidence_bounds by simp
qed

theorem confidence_fixed_by_kind_witness:
  "hd (extractPDFSections example_resume) \<in> set (extractPDFSections example_resume)
   \<and> sec_type (hd (extractPDFSections example_resume)) = Name
   \<and> confidence (hd (extractPDFSections example_resume)) = 95 / 100
   \<and> map confidence (extractPDFSections example_resume) = [95 / 100, 9 / 10]"
  using confidence_fixed_by_kind [of example_resume]
  by (simp add: extractPDFSections_def example_resume_def truthy_def)

section \<open>Properties of createCurvedPath\<close>

lemma two_powr_int: "2 powr real_of_int k = (2::real) powi k"
  by (simp add: powr_real_of_int')

lemma floor_log2_bounds:
  assumes "0 < a"
  shows "2 powi \<lfloor>log 2 a\<rfloor> \<le> a \<and> a < 2 powi (\<lfloor>log 2 a\<rfloor> + 1)"
proof -
  have "2 powr real_of_int \<lfloor>log 2 a\<rfloor> \<le> a \<and> a < 2 powr real_of_int (\<lfloor>log 2 a\<rfloor> + 1)"
    using floor_log_eq_powr_iff [of a 2 "\<lfloor>log 2 a\<rfloor>"] assms by simp
  then show ?thesis by (simp only: two_powr_int)
qed

lemma floor_log2_unique:
  assumes "2 powi k \<le> a" "a < 2 powi (k + 1)"
  shows "\<lfloor>log 2 a\<rfloor> = k"
proof -
  have "(0::real) < 2 powi k" by (rule zero_less_power_int) simp
  then have pos: "0 < a" using assms(1) by linarith
  have "2 powr real_of_int k \<le> a \<and> a < 2 powr (real_of_int k + 1)"
    using assms two_powr_int [of k] two_powr_int [of "k + 1"] by simp
  then show ?thesis using pos by (simp add: floor_log_eq_powr_iff)
qed

lemma floor_log2_eq:
  assumes "0 < a"
  shows "floor_log2 a = \<lfloor>log 2 a\<rfloor>"
proof (cases "1 \<le> a")
  case True
  define k where "k = \<lfloor>log 2 a\<rfloor>"
  have kb: "2 powi k \<le> a" "a < 2 powi (k + 1)"
    using floor_log2_bounds [OF assms] by (simp_all add: k_def)
  have k0: "0 \<le> k" using True by (simp add: k_def)
  then have p: "(2::real) powi k = of_int (2 ^ nat k)"
    by (simp add: power_int_def)
  have "2 ^ nat k \<le> \<lfloor>a\<rfloor>" using kb(1) unfolding p by (simp add: le_floor_iff)
  then have lo: "2 powi k \<le> real_of_int \<lfloor>a\<rfloor>" unfolding p by linarith
  have hi: "real_of_int \<lfloor>a\<rfloor> < 2 powi (k + 1)" using kb(2) by linarith
  have "\<lfloor>log 2 (real_of_int \<lfloor>a\<rfloor>)\<rfloor> = k" using lo hi by (rule floor_log2_unique)
  moreover have "0 < \<lfloor>a\<rfloor>" using True by simp
  ultimately show ?thesis using True by (simp add: floor_log2_def bitlen_alt_def k_def)
next
  case False
  define k where "k = \<lfloor>log 2 a\<rfloor>"
  define n where "n = - k"
  define m where "m = \<lceil>1 / a\<rceil>"
  have kb: "2 powi k \<le> a" "a < 2 powi (k + 1)"
    using floor_log2_bounds [OF assms] by (simp_all add: k_def)
  have "log 2 a < 0" using False assms by simp
  then have "k < 0" unfolding k_def by linarith
  then have n1: "1 \<le> n" by (simp add: n_def)
  have inv_lo: "2 powi (n - 1) < 1 / a"
  proof -
    have "1 / (2 powi (k + 1)) < 1 / a"
      using kb(2) assms by (simp add: frac_less2)
    moreover have "n - 1 = - (k + 1)" by (simp add: n_def)
    then have "(2::real) powi (n - 1) = inverse (2 powi (k + 1))"
      by (simp only: power_int_minus)
    then have "1 / ((2::real) powi (k + 1)) = 2 powi (n - 1)"
      by (simp add: divide_inverse)
    ultimately show ?thesis by simp
  qed
  have inv_hi: "1 / a \<le> 2 powi n"
  proof -
    have "1 / a \<le> 1 / (2 powi k)"
      using kb(1) assms by (simp add: frac_le)
    moreover have "1 / ((2::real) powi k) = 2 powi n"
      by (simp add: n_def power_int_minus field_simps)
    ultimately show ?thesis by simp
  qed
  have p1: "(2::real) powi (n - 1) = of_int (2 ^ nat (n - 1))"
    using n1 by (simp add: power_int_def)
  have p2: "(2::real) powi n = of_int (2 ^ nat n)"
    using n1 by (simp add: power_int_def)
  have "2 ^ nat (n - 1) < m" using inv_lo unfolding p1 m_def by (simp add: less_ceiling_iff)
  then have lo: "2 powi (n - 1) \<le> real_of_int (m - 1)" unfolding p1 by linarith
  have "m \<le> 2 ^ nat n" using inv_hi unfolding p2 m_def by (simp add: ceiling_le_iff)
  then have "real_of_int (m - 1) < 2 powi n" unfolding p2 by linarith
  then have hi: "real_of_int (m - 1) < 2 powi (n - 1 + 1)" by simp
  have "\<lfloor>log 2 (real_of_int (m - 1))\<rfloor> = n - 1" using lo hi by (rule floor_log2_unique)
  moreover have "(0::int) < 2 ^ nat (n - 1)" by simp
  then have "0 < m - 1" using \<open>2 ^ nat (n - 1) < m\<close> by linarith
  ultimately have "bitlen (m - 1) = n" by (simp add: bitlen_alt_def)
  then show ?thesis using False by (simp add: floor_log2_def m_def n_def k_def)
qed

lemma ulp_exponent_eq:
  assumes "2 powi k \<le> \<bar>r\<bar>" "\<bar>r\<bar> < 2 powi (k + 1)"
  shows "ulp_exponent r = max (k - 52) (- 1074)"
proof -
  have "(0::real) < 2 powi k" by (rule zero_less_power_int) simp
  then have pos: "0 < \<bar>r\<bar>" using assms(1) by linarith
  have "\<lfloor>log 2 \<bar>r\<bar>\<rfloor> = k" using assms by (rule floor_log2_unique)
  then show ?thesis using pos by (simp add: ulp_exponent_def floor_log2_eq)
qed

lemma round_to_double_0 [simp]: "round_to_double 0 = Fin 0"
  by (simp add: round_to_double_def rnd_def)

lemma round_to_double_1 [simp]: "round_to_double 1 = Fin 1"
  using ulp_exponent_eq [of 0 1]
  by (simp add: round_to_double_def rnd_def round_half_even_def power_int_minus)


lemma floor_log2_less:
  assumes "0 < a" "a < 2 powi n"
  shows "\<lfloor>log 2 a\<rfloor> < n"
proof (rule ccontr)
  assume "\<not> \<lfloor>log 2 a\<rfloor> < n"
  then have "n \<le> \<lfloor>log 2 a\<rfloor>" by simp
  then have "(2::real) powi n \<le> 2 powi \<lfloor>log 2 a\<rfloor>"
    by (rule power_int_increasing) simp
  with floor_log2_bounds [OF assms(1)] assms(2) show False by linarith
qed

lemma round_half_even_of_int [simp]: "round_half_even (of_int n) = n"
  by (simp add: round_half_even_def)

lemma round_half_even_le:
  assumes "v \<le> of_int n"
  shows "round_half_even v \<le> n"
proof -
  have a: "\<lfloor>v\<rfloor> \<le> n" using assms by (simp add: floor_le_iff)
  have b: "\<lfloor>v\<rfloor> + 1 \<le> n" if "1 / 2 \<le> v - of_int \<lfloor>v\<rfloor>"
  proof -
    have "of_int \<lfloor>v\<rfloor> < (of_int n :: real)" using that assms by linarith
    then show ?thesis by simp
  qed
  show ?thesis using a b by (auto simp: round_half_even_def Let_def)
qed

lemma round_half_even_ge:
  assumes "of_int n \<le> v"
  shows "n \<le> round_half_even v"
proof -
  have "n \<le> \<lfloor>v\<rfloor>" using assms by (simp add: le_floor_iff)
  then show ?thesis by (auto simp: round_half_even_def Let_def)
qed

lemma ulp_exponent_ge: "- 1074 \<le> ulp_exponent r"
  by (simp add: ulp_exponent_def)

text \<open>A product of an integer of at most 53 bits and a power of two in range is a double.\<close>

lemma rnd_exact_less:
  assumes "\<bar>m\<bar> < 2 ^ 53" "- 1074 \<le> e"
  shows "rnd (of_int m * 2 powi e) = of_int m * 2 powi e"
proof (cases "m = 0")
  case True
  then show ?thesis by (simp add: rnd_def)
next
  case False
  define v :: real where "v = of_int m * 2 powi e"
  define q where "q = ulp_exponent v"
  have v0: "v \<noteq> 0" using False by (simp add: v_def)
  have "\<bar>v\<bar> = of_int \<bar>m\<bar> * 2 powi e" by (simp add: v_def abs_mult)
  moreover have "(of_int \<bar>m\<bar> :: real) < of_int (2 ^ 53)"
    using assms(1) by (simp only: of_int_less_iff)
  then have "(of_int \<bar>m\<bar> :: real) < 2 ^ 53" by simp
  ultimately have "\<bar>v\<bar> < 2 ^ 53 * 2 powi e" by simp
  also have "\<dots> = 2 powi (53 + e)" by (simp add: power_int_add)
  finally have "\<lfloor>log 2 \<bar>v\<bar>\<rfloor> < 53 + e" using v0 by (intro floor_log2_less) simp_all
  then have qe: "q \<le> e" using assms(2) v0 by (simp add: q_def ulp_exponent_def floor_log2_eq)
  have "v / 2 powi q = of_int m * 2 powi (e - q)"
    by (simp add: v_def power_int_diff)
  also have "\<dots> = of_int (m * 2 ^ nat (e - q))"
    using qe by (simp add: power_int_def)
  finally have "round_half_even (v / 2 powi q) = m * 2 ^ nat (e - q)"
    by (simp only: round_half_even_of_int)
  then have "rnd v = of_int (m * 2 ^ nat (e - q)) * 2 powi q"
    using v0 by (simp add: rnd_def q_def)
  also have "\<dots> = of_int m * (2 powi (e - q) * 2 powi q)"
    using qe by (simp add: power_int_def)
  also have "2 powi (e - q) * 2 powi q = (2::real) powi e"
    by (simp add: power_int_add [symmetric])
  finally show ?thesis by (simp add: v_def)
qed

lemma rnd_exact:
  assumes "\<bar>m\<bar> \<le> 2 ^ 53" "- 1074 \<le> e"
  shows "rnd (of_int m * 2 powi e) = of_int m * 2 powi e"
proof (cases "\<bar>m\<bar> < 2 ^ 53")
  case True
  then show ?thesis using assms(2) by (rule rnd_exact_less)
next
  case False
  then have "\<bar>m\<bar> = 2 ^ 53" using assms(1) by simp
  then consider "m = 2 ^ 53" | "m = - (2 ^ 53)" by linarith
  note m = this
  from m have eq: "(of_int m :: real) * 2 powi e = of_int (m div 2) * 2 powi (e + 1)"
    by cases (simp_all add: power_int_add)
  from m have "\<bar>m div 2\<bar> < 2 ^ 53" by cases simp_all
  moreover have "- 1074 \<le> e + 1" using assms(2) by simp
  ultimately have "rnd (of_int (m div 2) * 2 powi (e + 1)) = of_int (m div 2) * 2 powi (e + 1)"
    by (rule rnd_exact_less)
  then show ?thesis by (simp only: eq)
qed

lemma rnd_idem: "rnd (rnd r) = rnd r"
proof (cases "r = 0")
  case True
  then show ?thesis by (simp add: rnd_def)
next
  case False
  define q where "q = ulp_exponent r"
  define k where "k = \<lfloor>log 2 \<bar>r\<bar>\<rfloor>"
  define m where "m = round_half_even (r / 2 powi q)"
  have r: "rnd r = of_int m * 2 powi q" using False by (simp add: rnd_def q_def m_def)
  have q: "- 1074 \<le> q" "k - 52 \<le> q"
    using False by (simp_all add: q_def ulp_exponent_def floor_log2_eq k_def)
  have "\<bar>r\<bar> < 2 powi (k + 1)" using floor_log2_bounds [of "\<bar>r\<bar>"] False by (simp add: k_def)
  also have "(2::real) powi (k + 1) \<le> 2 powi (53 + q)"
    using q(2) by (intro power_int_increasing) simp_all
  also have "\<dots> = 2 ^ 53 * 2 powi q" by (simp add: power_int_add)
  finally have "\<bar>r\<bar> / 2 powi q < 2 ^ 53" by (simp add: field_simps)
  then have b: "\<bar>r / 2 powi q\<bar> < 2 ^ 53" by (simp add: abs_divide)
  have "r / 2 powi q < 2 ^ 53 \<and> - (r / 2 powi q) < 2 ^ 53"
    using b by (simp only: abs_less_iff)
  then have "r / 2 powi q \<le> of_int (2 ^ 53)" "of_int (- (2 ^ 53)) \<le> r / 2 powi q"
    by simp_all
  then have "m \<le> 2 ^ 53" "- (2 ^ 53) \<le> m"
    unfolding m_def by (simp_all only: round_half_even_le round_half_even_ge)
  then have "\<bar>m\<bar> \<le> 2 ^ 53" by linarith
  then show ?thesis unfolding r using q(1) by (rule rnd_exact)
qed


lemma round_to_double_idem:
  assumes "round_to_double r = Fin v"
  shows "round_to_double v = Fin v"
proof -
  have v: "v = rnd r" and b: "\<not> 2 ^ 1024 \<le> rnd r" "\<not> rnd r \<le> - (2 ^ 1024)"
    using assms by (auto simp: round_to_double_def Let_def split: if_splits)
  show ?thesis using b unfolding v by (simp add: round_to_double_def rnd_idem)
qed

lemma round_to_double_eval:
  assumes "2 powi k \<le> \<bar>r\<bar>" "\<bar>r\<bar> < 2 powi (k + 1)"
  shows "round_to_double r =
     (let v = of_int (round_half_even (r / 2 powi max (k - 52) (- 1074)))
                * 2 powi max (k - 52) (- 1074)
      in if 2 ^ 1024 \<le> v then PInf else if v \<le> - (2 ^ 1024) then NInf else Fin v)"
proof -
  have "(0::real) < 2 powi k" by (rule zero_less_power_int) simp
  then have "0 < \<bar>r\<bar>" using assms(1) by linarith
  then have "r \<noteq> 0" by simp
  then show ?thesis
    by (simp add: round_to_double_def rnd_def ulp_exponent_eq [OF assms])
qed

lemma is_double_round: "is_finite (round_to_double r) \<Longrightarrow> is_double (round_to_double r)"
  by (cases "round_to_double r") (simp_all add: round_to_double_idem)

lemma fmul_one:
  assumes "is_double v \<or> \<not> is_finite v"
  shows "fmul v (Fin 1) = v"
  using assms by (cases v) simp_all

lemma fsub_doubles:
  "is_double (fsub (Fin a) (Fin b)) \<or> \<not> is_finite (fsub (Fin a) (Fin b))"
  using is_double_round [of "a - b"] by (auto simp: fsub_def)

lemma Math_PI_double: "round_to_double (884279719003555 / 281474976710656)
    = Fin (884279719003555 / 281474976710656)"
  using round_to_double_eval [of 1 "884279719003555 / 281474976710656"]
  by (simp add: round_half_even_def power_int_minus)

lemma param_t_0: "param_t steps 0 = (if steps = 0 then NaN else Fin 0)"
  by (simp add: param_t_def)

lemma param_t_last: "1 \<le> steps \<Longrightarrow> param_t steps steps = Fin 1"
  by (simp add: param_t_def)

lemma curveOffset_0: "curveOffset impl (Fin 0) = Fin 0"
  by (simp add: curveOffset_def Math_PI_def Math_sin_def)

lemma curveOffset_1: "curveOffset impl (Fin 1) = fmul (Math_sin impl Math_PI) (Fin 20)"
  by (simp add: curveOffset_def Math_PI_def Math_PI_double)

lemma interpolate_0:
  assumes "is_double a" "is_finite (fsub b a)"
  shows "interpolate a b (Fin 0) = a"
proof -
  obtain r where a: "a = Fin r" using assms(1) by (cases a) simp_all
  obtain d where d: "fsub b a = Fin d" using assms(2) by (cases "fsub b a") simp_all
  show ?thesis using assms(1) by (simp add: interpolate_def d) (simp add: a)
qed

lemma interpolate_1:
  assumes "is_double a" "is_double b"
  shows "interpolate a b (Fin 1) = fadd a (fsub b a)"
proof -
  obtain r where a: "a = Fin r" using assms(1) by (cases a) simp_all
  obtain s where b: "b = Fin s" using assms(2) by (cases b) simp_all
  show ?thesis unfolding interpolate_def a b
    using fmul_one [OF fsub_doubles [of s r]] by simp
qed

lemma length_createCurvedPath:
  "length (createCurvedPath impl start endp steps) = steps + 1"
  by (simp add: createCurvedPath_def)

text \<open>The real-valued path of the storyboard has the number of points the program computes.\<close>

lemma length_createCurvedPath_agrees:
  "length (createCurvedPath_real a b steps) = length (createCurvedPath impl start endp steps)"
  by (simp add: length_createCurvedPath length_createCurvedPath_real)

lemma nth_createCurvedPath:
  "i \<le> steps \<Longrightarrow>
   createCurvedPath impl start endp steps ! i = path_point impl start endp steps i"
  unfolding createCurvedPath_def
  using nth_map_upt [of i "Suc steps" 0 "path_point impl start endp steps"] by simp

lemma hd_createCurvedPath:
  "hd (createCurvedPath impl start endp steps) = path_point impl start endp steps 0"
  by (simp add: createCurvedPath_def upt_rec)

lemma last_createCurvedPath:
  "last (createCurvedPath impl start endp steps) = path_point impl start endp steps steps"
  by (simp add: createCurvedPath_def)

lemma round_to_double_2: "round_to_double 2 = Fin 2"
  using round_to_double_eval [of 1 2] by (simp add: round_half_even_def power_int_minus)

lemma round_to_double_3: "round_to_double 3 = Fin 3"
  using round_to_double_eval [of 1 3] by (simp add: round_half_even_def power_int_minus)

lemma round_to_double_4: "round_to_double 4 = Fin 4"
  using round_to_double_eval [of 2 4] by (simp add: round_half_even_def power_int_minus)

lemma offset_engine:
  "round_to_double (4967757600021511 / 2 ^ 105 * 20) = Fin (6209697000026889 / 2 ^ 101)"
  using round_to_double_eval [of "- 49" "4967757600021511 / 2 ^ 105 * 20"]
  by (simp add: round_half_even_def power_int_minus)

lemma three_plus_offset:
  "round_to_double (3 + 6209697000026889 / 2 ^ 101) = Fin (3 + 6 / 2 ^ 51)"
  using round_to_double_eval [of 1 "3 + 6209697000026889 / 2 ^ 101"]
  by (simp add: round_half_even_def power_int_minus)

lemma four_plus_offset:
  "round_to_double (4 + 6209697000026889 / 2 ^ 101) = Fin (4 + 3 / 2 ^ 50)"
  using round_to_double_eval [of 2 "4 + 6209697000026889 / 2 ^ 101"]
  by (simp add: round_half_even_def power_int_minus)

lemma round_to_double_2_1023: "round_to_double (2 ^ 1023) = Fin (2 ^ 1023)"
  using round_to_double_eval [of 1023 "2 ^ 1023"]
  by (simp add: round_half_even_def power_int_minus)

lemma round_to_double_m2_1023: "round_to_double (- (2 ^ 1023)) = Fin (- (2 ^ 1023))"
  using round_to_double_eval [of 1023 "- (2 ^ 1023)"]
  by (simp add: round_half_even_def power_int_minus)

lemma round_to_double_2_1024: "round_to_double (2 ^ 1024) = PInf"
  using round_to_double_eval [of 1024 "2 ^ 1024"]
  by (simp add: round_half_even_def power_int_minus)

lemma round_to_double_2_60: "round_to_double (2 ^ 60) = Fin (2 ^ 60)"
  using round_to_double_eval [of 60 "2 ^ 60"]
  by (simp add: round_half_even_def power_int_minus)

lemma round_to_double_1_m2_60: "round_to_double (1 - 2 ^ 60) = Fin (- (2 ^ 60))"
  using round_to_double_eval [of 59 "1 - 2 ^ 60"]
  by (simp add: round_half_even_def power_int_minus)

lemma round_to_double_m2_60: "round_to_double (- (2 ^ 60)) = Fin (- (2 ^ 60))"
  using round_to_double_eval [of 60 "- (2 ^ 60)"]
  by (simp add: round_half_even_def power_int_minus)

text \<open>
  C3, as the code has it. For finite doubles as coordinates of \<open>start\<close> and \<open>end\<close> and
  \<open>steps \<ge> 1\<close> the path has \<open>steps + 1\<close> points. The point of index \<open>i\<close> is
  \<open>(x + o, y + o)\<close> in double arithmetic, with \<open>t = i / steps\<close>, the interpolated \<open>x\<close> and
  \<open>y\<close>, and one offset \<open>o = Math.sin(t * Math.PI) * 20\<close> for both coordinates. At the
  first point \<open>t\<close> is 0 and the offset is exactly 0; the first point is \<open>start\<close> when
  \<open>end - start\<close> is finite in both coordinates. At the last point \<open>t\<close> is 1, the offset
  is \<open>Math.sin(Math.PI) * 20\<close>, and the point is
  \<open>(start + (end - start)) + Math.sin(Math.PI) * 20\<close> in double arithmetic; nothing makes
  it equal to \<open>end\<close>.
\<close>

theorem curved_path_in_doubles:
  assumes "1 \<le> steps"
    and "is_double (dbl_x start)" "is_double (dbl_y start)"
    and "is_double (dbl_x endp)" "is_double (dbl_y endp)"
  shows "length (createCurvedPath impl start endp steps) = steps + 1
   \<and> (\<forall>i \<le> steps. createCurvedPath impl start endp steps ! i =
         \<lparr>dbl_x = fadd (interpolate (dbl_x start) (dbl_x endp) (param_t steps i))
                       (curveOffset impl (param_t steps i)),
          dbl_y = fadd (interpolate (dbl_y start) (dbl_y endp) (param_t steps i))
                       (curveOffset impl (param_t steps i))\<rparr>)
   \<and> param_t steps 0 = Fin 0
   \<and> curveOffset impl (Fin 0) = Fin 0
   \<and> (is_finite (fsub (dbl_x endp) (dbl_x start)) \<and> is_finite (fsub (dbl_y endp) (dbl_y start))
        \<longrightarrow> hd (createCurvedPath impl start endp steps) = start)
   \<and> param_t steps steps = Fin 1
   \<and> curveOffset impl (Fin 1) = fmul (Math_sin impl Math_PI) (Fin 20)
   \<and> last (createCurvedPath impl start endp steps) =
        \<lparr>dbl_x = fadd (fadd (dbl_x start) (fsub (dbl_x endp) (dbl_x start)))
                      (fmul (Math_sin impl Math_PI) (Fin 20)),
         dbl_y = fadd (fadd (dbl_y start) (fsub (dbl_y endp) (dbl_y start)))
                      (fmul (Math_sin impl Math_PI) (Fin 20))\<rparr>"
proof -
  have t0: "param_t steps 0 = Fin 0" using assms(1) by (simp add: param_t_0)
  have t1: "param_t steps steps = Fin 1" using assms(1) by (rule param_t_last)
  have first: "hd (createCurvedPath impl start endp steps) = start"
    if "is_finite (fsub (dbl_x endp) (dbl_x start))" "is_finite (fsub (dbl_y endp) (dbl_y start))"
  proof -
    obtain a where a: "dbl_x start = Fin a" using assms(2) by (cases "dbl_x start") simp_all
    obtain b where b: "dbl_y start = Fin b" using assms(3) by (cases "dbl_y start") simp_all
    have "fadd (dbl_x start) (Fin 0) = dbl_x start" "fadd (dbl_y start) (Fin 0) = dbl_y start"
      using assms(2,3) by (simp_all add: a b)
    then show ?thesis
      using interpolate_0 [OF assms(2) that(1)] interpolate_0 [OF assms(3) that(2)]
      by (simp add: hd_createCurvedPath path_point_def t0 curveOffset_0)
  qed
  have last: "last (createCurvedPath impl start endp steps) =
        \<lparr>dbl_x = fadd (fadd (dbl_x start) (fsub (dbl_x endp) (dbl_x start)))
                      (fmul (Math_sin impl Math_PI) (Fin 20)),
         dbl_y = fadd (fadd (dbl_y start) (fsub (dbl_y endp) (dbl_y start)))
                      (fmul (Math_sin impl Math_PI) (Fin 20))\<rparr>"
    using interpolate_1 [OF assms(2) assms(4)] interpolate_1 [OF assms(3) assms(5)]
    by (simp add: last_createCurvedPath path_point_def t1 curveOffset_1)
  have "createCurvedPath impl start endp steps ! i =
         \<lparr>dbl_x = fadd (interpolate (dbl_x start) (dbl_x endp) (param_t steps i))
                       (curveOffset impl (param_t steps i)),
          dbl_y = fadd (interpolate (dbl_y start) (dbl_y endp) (param_t steps i))
                       (curveOffset impl (param_t steps i))\<rparr>" if "i \<le> steps" for i
    using nth_createCurvedPath [OF that] by (simp add: path_point_def Let_def)
  then show ?thesis
    using first last t0 t1 curveOffset_0 curveOffset_1 length_createCurvedPath
    by simp
qed

theorem curved_path_in_doubles_witness:
  "(1::nat) \<le> 1
   \<and> is_double (Fin 1) \<and> is_double (Fin 2) \<and> is_double (Fin 3) \<and> is_double (Fin 4)
   \<and> is_finite (fsub (Fin 3) (Fin 1)) \<and> is_finite (fsub (Fin 4) (Fin 2))
   \<and> length (createCurvedPath sin_engine
         \<lparr>dbl_x = Fin 1, dbl_y = Fin 2\<rparr> \<lparr>dbl_x = Fin 3, dbl_y = Fin 4\<rparr> 1) = 2
   \<and> hd (createCurvedPath sin_engine
         \<lparr>dbl_x = Fin 1, dbl_y = Fin 2\<rparr> \<lparr>dbl_x = Fin 3, dbl_y = Fin 4\<rparr> 1)
       = \<lparr>dbl_x = Fin 1, dbl_y = Fin 2\<rparr>
   \<and> last (createCurvedPath sin_engine
         \<lparr>dbl_x = Fin 1, dbl_y = Fin 2\<rparr> \<lparr>dbl_x = Fin 3, dbl_y = Fin 4\<rparr> 1)
       = \<lparr>dbl_x = fadd (Fin 3) (fmul (Math_sin sin_engine Math_PI) (Fin 20)),
          dbl_y = fadd (Fin 4) (fmul (Math_sin sin_engine Math_PI) (Fin 20))\<rparr>"
  using curved_path_in_doubles [of 1 "\<lparr>dbl_x = Fin 1, dbl_y = Fin 2\<rparr>"
      "\<lparr>dbl_x = Fin 3, dbl_y = Fin 4\<rparr>" sin_engine]
  by (simp add: fsub_def round_to_double_2 round_to_double_3 round_to_double_4)

text \<open>
  Outside the claim, which asks for \<open>steps \<ge> 1\<close>: for \<open>steps = 0\<close> the one point of the
  path is \<open>(NaN, NaN)\<close>, from \<open>0 / 0\<close>.
\<close>

lemma zero_steps_NaN:
  "createCurvedPath impl start endp 0 = [\<lparr>dbl_x = NaN, dbl_y = NaN\<rparr>]"
proof -
  have "fmul v NaN = NaN" "fadd v NaN = NaN" "fadd NaN v = NaN" for v
    by (cases v; simp)+
  then show ?thesis
    by (simp add: createCurvedPath_def path_point_def param_t_def interpolate_def
        curveOffset_def Math_sin_def Let_def)
qed

text \<open>
  Two inputs at which an end point of the path is off whatever \<open>Math.sin\<close> returns.
  When \<open>end.x - start.x\<close> overflows, the first x is \<open>start.x + Infinity * 0\<close>, which is
  NaN. When \<open>start.y + (end.y - start.y)\<close> rounds (here to 0, where \<open>end.y\<close> is 1) and
  the x coordinates are both 0, the last point has the offset in both coordinates, so
  it is on the diagonal and cannot be \<open>(0, 1)\<close>.
\<close>

lemma first_point_overflow:
  "hd (createCurvedPath impl
         \<lparr>dbl_x = Fin (- (2 ^ 1023)), dbl_y = Fin 0\<rparr> \<lparr>dbl_x = Fin (2 ^ 1023), dbl_y = Fin 0\<rparr>
         (Suc n))
     = \<lparr>dbl_x = NaN, dbl_y = Fin 0\<rparr>"
  using round_to_double_2_1024
  by (simp add: hd_createCurvedPath path_point_def param_t_0 interpolate_def fsub_def
      curveOffset_0 Let_def)

lemma last_point_rounding:
  "dbl_x (last (createCurvedPath impl
         \<lparr>dbl_x = Fin 0, dbl_y = Fin (2 ^ 60)\<rparr> \<lparr>dbl_x = Fin 0, dbl_y = Fin 1\<rparr> (Suc n)))
   = dbl_y (last (createCurvedPath impl
         \<lparr>dbl_x = Fin 0, dbl_y = Fin (2 ^ 60)\<rparr> \<lparr>dbl_x = Fin 0, dbl_y = Fin 1\<rparr> (Suc n)))"
  using round_to_double_1_m2_60 round_to_double_m2_60
  by (simp add: last_createCurvedPath path_point_def param_t_last interpolate_def fsub_def
      Let_def)

lemma last_point_not_end:
  "last (createCurvedPath impl
         \<lparr>dbl_x = Fin 0, dbl_y = Fin (2 ^ 60)\<rparr> \<lparr>dbl_x = Fin 0, dbl_y = Fin 1\<rparr> (Suc n))
     \<noteq> \<lparr>dbl_x = Fin 0, dbl_y = Fin 1\<rparr>"
proof
  assume "last (createCurvedPath impl
         \<lparr>dbl_x = Fin 0, dbl_y = Fin (2 ^ 60)\<rparr> \<lparr>dbl_x = Fin 0, dbl_y = Fin 1\<rparr> (Suc n))
     = \<lparr>dbl_x = Fin 0, dbl_y = Fin 1\<rparr>"
  with last_point_rounding [of impl n] show False by simp
qed

text \<open>
  C3, as the claim states it, fails. With the sine of V8 the path from \<open>(1, 2)\<close> to
  \<open>(3, 4)\<close> in one step ends at \<open>(3.0000000000000027, 4.000000000000003)\<close>, since the
  offset at \<open>t = 1\<close> is \<open>2.4492935982947064e-15\<close> and not 0. The path from
  \<open>(0, 2 ^ 60)\<close> to \<open>(0, 1)\<close> does not end at \<open>(0, 1)\<close>, and the path from
  \<open>(- 2 ^ 1023, 0)\<close> to \<open>(2 ^ 1023, 0)\<close>, two finite points, starts at \<open>(NaN, 0)\<close>; these
  two hold for every sine.
\<close>

theorem endpoints_not_exact_counterexample:
  "createCurvedPath sin_engine
       \<lparr>dbl_x = Fin 1, dbl_y = Fin 2\<rparr> \<lparr>dbl_x = Fin 3, dbl_y = Fin 4\<rparr> 1
     = [\<lparr>dbl_x = Fin 1, dbl_y = Fin 2\<rparr>,
        \<lparr>dbl_x = Fin (3 + 6 / 2 ^ 51), dbl_y = Fin (4 + 3 / 2 ^ 50)\<rparr>]
   \<and> last (createCurvedPath sin_engine
         \<lparr>dbl_x = Fin 1, dbl_y = Fin 2\<rparr> \<lparr>dbl_x = Fin 3, dbl_y = Fin 4\<rparr> 1)
     \<noteq> \<lparr>dbl_x = Fin 3, dbl_y = Fin 4\<rparr>
   \<and> curveOffset sin_engine (Fin 1) = Fin (6209697000026889 / 2 ^ 101)
   \<and> curveOffset sin_engine (Fin 1) \<noteq> Fin 0
   \<and> is_double (Fin 0) \<and> is_double (Fin 1) \<and> is_double (Fin (2 ^ 60))
   \<and> last (createCurvedPath sin_engine
         \<lparr>dbl_x = Fin 0, dbl_y = Fin (2 ^ 60)\<rparr> \<lparr>dbl_x = Fin 0, dbl_y = Fin 1\<rparr> 1)
     \<noteq> \<lparr>dbl_x = Fin 0, dbl_y = Fin 1\<rparr>
   \<and> is_double (Fin (- (2 ^ 1023))) \<and> is_double (Fin (2 ^ 1023))
   \<and> hd (createCurvedPath sin_engine
         \<lparr>dbl_x = Fin (- (2 ^ 1023)), dbl_y = Fin 0\<rparr> \<lparr>dbl_x = Fin (2 ^ 1023), dbl_y = Fin 0\<rparr> 1)
     = \<lparr>dbl_x = NaN, dbl_y = Fin 0\<rparr>
   \<and> hd (createCurvedPath sin_engine
         \<lparr>dbl_x = Fin (- (2 ^ 1023)), dbl_y = Fin 0\<rparr> \<lparr>dbl_x = Fin (2 ^ 1023), dbl_y = Fin 0\<rparr> 1)
     \<noteq> \<lparr>dbl_x = Fin (- (2 ^ 1023)), dbl_y = Fin 0\<rparr>"
proof -
  have off: "curveOffset sin_engine (Fin 1) = Fin (6209697000026889 / 2 ^ 101)"
    using offset_engine
    by (simp add: curveOffset_1 Math_PI_def Math_sin_def sin_engine_def)
  have "createCurvedPath sin_engine
       \<lparr>dbl_x = Fin 1, dbl_y = Fin 2\<rparr> \<lparr>dbl_x = Fin 3, dbl_y = Fin 4\<rparr> 1
     = [\<lparr>dbl_x = Fin 1, dbl_y = Fin 2\<rparr>,
        \<lparr>dbl_x = Fin (3 + 6 / 2 ^ 51), dbl_y = Fin (4 + 3 / 2 ^ 50)\<rparr>]"
    using three_plus_offset four_plus_offset off
    by (simp add: createCurvedPath_def path_point_def param_t_def interpolate_def
        fsub_def curveOffset_0 round_to_double_2 round_to_double_3 round_to_double_4 Let_def)
  then show ?thesis
    using off first_point_overflow [of sin_engine 0] last_point_not_end [of sin_engine 0]
      round_to_double_2_1023 round_to_double_m2_1023 round_to_double_2_60
    by simp
qed

end
